theory Spec2Isabelle
  imports Main "HOL-Library.Sublist"
begin

section \<open>Go strings\<close>

text \<open>
  A Go string is a sequence of bytes; it is modelled as \<^typ>\<open>string\<close> (a list of
  8-bit characters). The functions of package \<^verbatim>\<open>strings\<close> that the program calls are
  written out for a one-byte separator, which is how the program calls them.
\<close>

definition HasPrefix :: "string \<Rightarrow> string \<Rightarrow> bool" where
  "HasPrefix s p = (length p \<le> length s \<and> take (length p) s = p)"

definition HasSuffix :: "string \<Rightarrow> string \<Rightarrow> bool" where
  "HasSuffix s p = (length p \<le> length s \<and> drop (length s - length p) s = p)"

definition TrimPrefix :: "string \<Rightarrow> string \<Rightarrow> string" where
  "TrimPrefix s p = (if HasPrefix s p then drop (length p) s else s)"

definition Contains :: "string \<Rightarrow> char \<Rightarrow> bool" where
  "Contains s c = (c \<in> set s)"

text \<open>
  \<^verbatim>\<open>strings.Split(s, sep)\<close>: the pieces of \<open>s\<close> between the occurrences of \<open>sep\<close>;
  a string without \<open>sep\<close> is its own single piece.
\<close>

fun Split :: "string \<Rightarrow> char \<Rightarrow> string list" where
  "Split [] sep = [[]]"
| "Split (c # cs) sep =
     (if c = sep then [] # Split cs sep
      else (case Split cs sep of [] \<Rightarrow> [[c]] | p # ps \<Rightarrow> (c # p) # ps))"

text \<open>
  \<^verbatim>\<open>strings.Cut(s, sep)\<close>, first result: the text before the first \<open>sep\<close>, or all of
  \<open>s\<close> when \<open>sep\<close> does not occur.
\<close>

definition Cut_before :: "string \<Rightarrow> char \<Rightarrow> string" where
  "Cut_before s sep = takeWhile (\<lambda>c. c \<noteq> sep) s"

text \<open>
  \<^verbatim>\<open>strings.EqualFold\<close>, following the loops of the library. As long as both strings hold
  ASCII bytes, they are compared byte by byte: two bytes agree when they are equal or when
  the smaller one is an upper-case letter and the larger one is its lower-case form. At
  the first position where one of the two bytes is \<open>0x80\<close> or more, the library goes on
  rune by rune with the simple case folding of the Unicode tables (\<^verbatim>\<open>unicode.SimpleFold\<close>)
  on what is left of the two strings. That second loop and the tables are not written
  out: the parameter \<open>uni\<close> stands for the comparison that the library makes from there.
\<close>

definition fold_eq :: "char \<Rightarrow> char \<Rightarrow> bool" where
  "fold_eq a b =
     (let sr = min (of_char a :: nat) (of_char b); tr = max (of_char a :: nat) (of_char b)
      in sr = tr \<or> (65 \<le> sr \<and> sr \<le> 90 \<and> tr = sr + 32))"

fun EqualFold :: "(string \<Rightarrow> string \<Rightarrow> bool) \<Rightarrow> string \<Rightarrow> string \<Rightarrow> bool" where
  "EqualFold uni [] [] = True"
| "EqualFold uni (a # s) (b # t) =
     (if 128 \<le> (of_char a :: nat) \<or> 128 \<le> (of_char b :: nat) then uni (a # s) (b # t)
      else fold_eq a b \<and> EqualFold uni s t)"
| "EqualFold uni _ _ = False"

section \<open>Wildcard matching of script names\<close>

text \<open>
  \<^verbatim>\<open>wildcardMatch\<close>: a pattern without \<open>*\<close> is compared with \<open>EqualFold\<close>; a pattern
  with one \<open>*\<close> is a prefix and a suffix test; more than one \<open>*\<close> never matches.
\<close>

definition wildcardMatch :: "(string \<Rightarrow> string \<Rightarrow> bool) \<Rightarrow> string \<Rightarrow> string \<Rightarrow> bool" where
  "wildcardMatch uni pattern s =
     (let parts = Split pattern CHR ''*'' in
      if length parts = 1 then EqualFold uni pattern s
      else if length parts > 2 then False
      else if parts ! 0 = [] then HasSuffix s (parts ! 1)
      else if parts ! 1 = [] then HasPrefix s (parts ! 0)
      else HasPrefix s (parts ! 0) \<and> HasSuffix s (parts ! 1))"


section \<open>Display names of commands\<close>

text \<open>
  \<^verbatim>\<open>strings.TrimSpace\<close> removes the leading and the trailing white space, as
  \<^verbatim>\<open>unicode.IsSpace\<close> defines it, from a string that it reads as UTF-8. The white-space
  runes are the six of ASCII (tab, line feed, vertical tab, form feed, carriage return,
  space), \<open>U+0085\<close>, \<open>U+00A0\<close>, \<open>U+1680\<close>, \<open>U+2000\<close> to \<open>U+200A\<close>, \<open>U+2028\<close>, \<open>U+2029\<close>,
  \<open>U+202F\<close>, \<open>U+205F\<close> and \<open>U+3000\<close>; \<open>spaceRunes\<close> lists their UTF-8 encodings. A string
  starts (ends) with a white-space rune exactly when it starts (ends) with one of these
  encodings: the decoder reads any other sequence, valid or not, as a rune that is not
  white space, and no encoding of the list is the start or the end of another.
\<close>

definition spaceRunes :: "string list" where
  "spaceRunes =
     [[CHR 0x09], [CHR 0x0A], [CHR 0x0B], [CHR 0x0C], [CHR 0x0D], [CHR 0x20],
      [CHR 0xC2, CHR 0x85], [CHR 0xC2, CHR 0xA0],
      [CHR 0xE1, CHR 0x9A, CHR 0x80],
      [CHR 0xE2, CHR 0x80, CHR 0x80], [CHR 0xE2, CHR 0x80, CHR 0x81],
      [CHR 0xE2, CHR 0x80, CHR 0x82], [CHR 0xE2, CHR 0x80, CHR 0x83],
      [CHR 0xE2, CHR 0x80, CHR 0x84], [CHR 0xE2, CHR 0x80, CHR 0x85],
      [CHR 0xE2, CHR 0x80, CHR 0x86], [CHR 0xE2, CHR 0x80, CHR 0x87],
      [CHR 0xE2, CHR 0x80, CHR 0x88], [CHR 0xE2, CHR 0x80, CHR 0x89],
      [CHR 0xE2, CHR 0x80, CHR 0x8A],
      [CHR 0xE2, CHR 0x80, CHR 0xA8], [CHR 0xE2, CHR 0x80, CHR 0xA9],
      [CHR 0xE2, CHR 0x80, CHR 0xAF],
      [CHR 0xE2, CHR 0x81, CHR 0x9F],
      [CHR 0xE3, CHR 0x80, CHR 0x80]]"

text \<open>The white-space rune that a string starts with, and the one it ends with.\<close>

definition leadingSpace :: "string \<Rightarrow> string option" where
  "leadingSpace s = find (\<lambda>r. prefix r s) spaceRunes"

definition trailingSpace :: "string \<Rightarrow> string option" where
  "trailingSpace s = find (\<lambda>r. suffix r s) spaceRunes"

lemma leadingSpace_shorter:
  "leadingSpace s = Some r \<Longrightarrow> length (drop (length r) s) < length s"
  by (auto simp: leadingSpace_def find_Some_iff spaceRunes_def nth_Cons' prefix_def
      split: if_splits)

lemma trailingSpace_shorter:
  "trailingSpace s = Some r \<Longrightarrow> length (take (length s - length r) s) < length s"
  by (auto simp: trailingSpace_def find_Some_iff spaceRunes_def nth_Cons' suffix_def
      split: if_splits)

function TrimLeft :: "string \<Rightarrow> string" where
  "TrimLeft s = (case leadingSpace s of None \<Rightarrow> s | Some r \<Rightarrow> TrimLeft (drop (length r) s))"
  by pat_completeness auto
termination
  by (relation "measure length") (auto dest: leadingSpace_shorter)

function TrimRight :: "string \<Rightarrow> string" where
  "TrimRight s =
     (case trailingSpace s of None \<Rightarrow> s | Some r \<Rightarrow> TrimRight (take (length s - length r) s))"
  by pat_completeness auto
termination
  by (relation "measure length") (auto dest: trailingSpace_shorter)

declare TrimLeft.simps [simp del] TrimRight.simps [simp del]

definition TrimSpace :: "string \<Rightarrow> string" where
  "TrimSpace s = TrimRight (TrimLeft s)"

text \<open>
  \<^verbatim>\<open>filepath.Base\<close> on a Unix path: the empty path gives \<open>.\<close>; trailing slashes are
  removed, then everything up to the last slash; a path of slashes only gives \<open>/\<close>.
\<close>

definition Base :: "string \<Rightarrow> string" where
  "Base path =
     (if path = [] then ''.''
      else let p = rev (dropWhile (\<lambda>c. c = CHR ''/'') (rev path));
               q = rev (takeWhile (\<lambda>c. c \<noteq> CHR ''/'') (rev p))
           in if q = [] then ''/'' else q)"

text \<open>
  \<^verbatim>\<open>filterCmdName\<close>: the command is trimmed, cut at its first space character, and the
  base name of that piece is taken; \<open>.\<close> and \<open>/\<close> count as no name.
\<close>

definition filterCmdName :: "string \<Rightarrow> string" where
  "filterCmdName c =
     (let n = Base (Cut_before (TrimSpace c) CHR '' '')
      in if n = ''.'' \<or> n = ''/'' then [] else n)"

text \<open>Decimal rendering of an integer, as \<^verbatim>\<open>%d\<close> and \<^verbatim>\<open>%v\<close> of \<^verbatim>\<open>fmt.Sprintf\<close> print it.\<close>

fun digits :: "nat \<Rightarrow> string" where
  "digits n = (if n < 10 then [''0123456789'' ! n]
               else digits (n div 10) @ [''0123456789'' ! (n mod 10)])"

declare digits.simps [simp del]

definition itoa :: "int \<Rightarrow> string" where
  "itoa i = (if i < 0 then CHR ''-'' # digits (nat (- i)) else digits (nat i))"

section \<open>Parsing the command list\<close>

record command =
  name :: string
  cmd :: string

datatype error =
    ErrAbs string
  | ErrReadPackageJSON string
  | ErrParsePackageJSON string
  | ErrNoScriptsMatching string
  | ErrNoScriptsNamed "string list"

text \<open>
  The script table of \<^verbatim>\<open>package.json\<close> is a Go map. Its content is modelled as an
  association list with distinct keys. Go leaves the order in which a \<^verbatim>\<open>range\<close> statement
  visits a map unspecified, and every execution of the statement has an order of its own:
  \<open>rk i\<close> ranks the script names for the \<^verbatim>\<open>range\<close> executed for the command at position
  \<open>i\<close> of the list, and that \<^verbatim>\<open>range\<close> visits the entries by increasing rank. The JSON
  decoder is not modelled: its result \<open>string + scripts\<close> (\<open>Inl\<close> the decoding error) is an
  input of \<^verbatim>\<open>parseNpmScripts\<close>.
\<close>

type_synonym scripts = "(string \<times> string) list"

definition rangeScripts :: "(string \<Rightarrow> nat) \<Rightarrow> scripts \<Rightarrow> scripts" where
  "rangeScripts r tbl = sort_key (\<lambda>(n, pcmd). r n) tbl"

text \<open>
  The loop of \<^verbatim>\<open>parseNpmScripts\<close>, with its two accumulators; \<open>i\<close> is the position of the
  command in the list. An exact match is taken first; a name without \<open>*\<close> that has no exact
  match is recorded as missing; a pattern with \<open>*\<close> collects every matching script, in the
  order of the \<^verbatim>\<open>range\<close>, and stops the whole loop with an error when there is none.
\<close>

fun npmLoop :: "(string \<Rightarrow> string \<Rightarrow> bool) \<Rightarrow> (nat \<Rightarrow> string \<Rightarrow> nat) \<Rightarrow> scripts \<Rightarrow> nat
    \<Rightarrow> string list \<Rightarrow> command list \<Rightarrow> string list \<Rightarrow> error + command list \<times> string list" where
  "npmLoop uni rk tbl i [] result missingCommands = Inr (result, missingCommands)"
| "npmLoop uni rk tbl i (c # cs) result missingCommands =
     (let scriptName = TrimPrefix c ''npm:'' in
      case map_of tbl scriptName of
        Some s \<Rightarrow>
          npmLoop uni rk tbl (Suc i) cs (result @ [\<lparr>name = scriptName, cmd = s\<rparr>]) missingCommands
      | None \<Rightarrow>
          if \<not> Contains scriptName CHR ''*''
          then npmLoop uni rk tbl (Suc i) cs result (missingCommands @ [scriptName])
          else (let matches = filter (\<lambda>(n, pcmd). wildcardMatch uni scriptName n)
                                (rangeScripts (rk i) tbl) in
                if matches = [] then Inl (ErrNoScriptsMatching scriptName)
                else npmLoop uni rk tbl (Suc i) cs
                  (result @ map (\<lambda>(n, pcmd). \<lparr>name = n, cmd = pcmd\<rparr>) matches)
                  missingCommands))"

definition parseNpmScripts :: "(string \<Rightarrow> string \<Rightarrow> bool) \<Rightarrow> (nat \<Rightarrow> string \<Rightarrow> nat)
    \<Rightarrow> string + scripts \<Rightarrow> string list \<Rightarrow> error + command list" where
  "parseNpmScripts uni rk b cmds =
     (case b of
        Inl e \<Rightarrow> Inl (ErrParsePackageJSON e)
      | Inr tbl \<Rightarrow>
          (case npmLoop uni rk tbl 0 cmds [] [] of
             Inl e \<Rightarrow> Inl e
           | Inr (result, missingCommands) \<Rightarrow>
               if length missingCommands > 0 then Inl (ErrNoScriptsNamed missingCommands)
               else Inr result))"

text \<open>
  The first loop of \<^verbatim>\<open>parseCommands\<close>: a command whose derived name starts with
  \<open>npm:\<close> is set aside, every other command is appended to the result under its derived
  name (\<open>cmd\<close> when the derived name is empty).
\<close>

definition derivedName :: "string \<Rightarrow> string" where
  "derivedName c = (if filterCmdName c = [] then ''cmd'' else filterCmdName c)"

fun classify :: "string list \<Rightarrow> command list \<Rightarrow> string list
    \<Rightarrow> command list \<times> string list" where
  "classify [] result npmCommands = (result, npmCommands)"
| "classify (c # cs) result npmCommands =
     (if HasPrefix (derivedName c) ''npm:'' then classify cs result (npmCommands @ [c])
      else classify cs (result @ [\<lparr>name = derivedName c, cmd = c\<rparr>]) npmCommands)"

text \<open>
  The renaming of duplicates. \<^verbatim>\<open>namesMap\<close> maps every name to the indexes of the commands
  that carry it, in increasing order. Every name with more than one index has its commands
  renamed \<open>name.1\<close>, \<open>name.2\<close>, ... in the order of the indexes. The source walks the map in
  an unspecified order; the model walks the names in the order of first occurrence, and
  lemma \<open>renameAll_order_irrelevant\<close> below shows that the order does not matter.
\<close>

definition namesMap :: "command list \<Rightarrow> (string \<rightharpoonup> nat list)" where
  "namesMap result =
     fold (\<lambda>(i, c) m. m(name c \<mapsto> (case m (name c) of None \<Rightarrow> [] | Some idxs \<Rightarrow> idxs) @ [i]))
       (enumerate 0 result) Map.empty"

definition renameGroup :: "string \<Rightarrow> nat list \<Rightarrow> command list \<Rightarrow> command list" where
  "renameGroup n idxs result =
     fold (\<lambda>(i, idx) r. r[idx := (r ! idx)\<lparr>name := n @ ''.'' @ itoa (int i + 1)\<rparr>])
       (enumerate 0 idxs) result"

definition renameAll :: "string list \<Rightarrow> (string \<rightharpoonup> nat list) \<Rightarrow> command list \<Rightarrow> command list" where
  "renameAll keys m result =
     fold (\<lambda>k r. case m k of
                   None \<Rightarrow> r
                 | Some idxs \<Rightarrow> if length idxs > 1 then renameGroup k idxs r else r)
       keys result"

definition renameDuplicates :: "command list \<Rightarrow> command list" where
  "renameDuplicates result = renameAll (remdups (map name result)) (namesMap result) result"

text \<open>
  \<^verbatim>\<open>parseCommands\<close>. Reading \<^verbatim>\<open>package.json\<close> under the root directory is an input:
  \<open>fs root\<close> is \<open>Inl\<close> the error of \<^verbatim>\<open>os.ReadFile\<close>, or \<open>Inr\<close> the result of decoding the
  bytes read. \<open>uni\<close> and \<open>rk\<close> are the two parameters of \<open>parseNpmScripts\<close>.
\<close>

type_synonym readfile = "string + (string + scripts)"

definition parseCommands :: "(string \<Rightarrow> string \<Rightarrow> bool) \<Rightarrow> (nat \<Rightarrow> string \<Rightarrow> nat)
    \<Rightarrow> (string \<Rightarrow> readfile) \<Rightarrow> string \<Rightarrow> string list \<Rightarrow> error + command list" where
  "parseCommands uni rk fs root cmds =
     (case classify cmds [] [] of (result, npmCommands) \<Rightarrow>
        if length npmCommands > 0 then
          (case fs root of
             Inl e \<Rightarrow> Inl (ErrReadPackageJSON e)
           | Inr b \<Rightarrow>
               (case parseNpmScripts uni rk b npmCommands of
                  Inl e \<Rightarrow> Inl e
                | Inr ss \<Rightarrow> Inr (renameDuplicates (result @ ss))))
        else Inr (renameDuplicates result))"

section \<open>ANSI styling\<close>

text \<open>
  Package \<^verbatim>\<open>ansi\<close>. The package variable \<^verbatim>\<open>NoColor\<close> is a parameter of every function.
\<close>

definition ESC :: char where
  "ESC = CHR 0x1B"

definition LF :: char where
  "LF = CHR 0x0A"

definition CR :: char where
  "CR = CHR 0x0D"

definition Red :: "bool \<Rightarrow> string \<Rightarrow> string" where
  "Red noColor s = (if noColor then s else ESC # ''[0;31m'' @ s @ ESC # ''[0m'')"

definition Dim :: "bool \<Rightarrow> string \<Rightarrow> string" where
  "Dim noColor s = (if noColor then s else ESC # ''[0;2m'' @ s @ ESC # ''[0m'')"

definition ColorStart :: "bool \<Rightarrow> int \<Rightarrow> string" where
  "ColorStart noColor i = (if noColor then [] else ESC # ''[0;38;5;'' @ itoa i @ ''m'')"

definition ColorEnd :: "bool \<Rightarrow> string" where
  "ColorEnd noColor = (if noColor then [] else ESC # ''[0m'')"

section \<open>Processes and the output multiplexer\<close>

text \<open>
  A \<^verbatim>\<open>process\<close> embeds an \<^verbatim>\<open>exec.Cmd\<close>; of that structure the model keeps the shell
  command, the directory, the environment, and the two fields \<^verbatim>\<open>Process\<close> (set when the
  child has been started; here its pid) and \<^verbatim>\<open>ProcessState\<close> (set when the child has been
  waited for; here its exit code). The multiplexer keys its pipes by the pointer to the
  process; \<open>addr\<close> stands for that pointer.
\<close>

record process =
  addr :: nat
  Name :: string
  Color :: int
  Cmd :: string
  Dir :: string
  Env :: "string list"
  silent :: bool
  Process :: "int option"
  ProcessState :: "int option"

record osFile =
  fd :: nat
  closed :: bool

record ptyPipe =
  pty :: "osFile option"
  tty :: "osFile option"

record multiOutput =
  maxNameLength :: nat
  pipes :: "nat \<rightharpoonup> ptyPipe"
  printProcName :: bool

text \<open>
  What the functions below act on: the variable \<^verbatim>\<open>ansi.NoColor\<close>, the bytes written to
  standard output so far, and the \<^verbatim>\<open>kill\<close> calls made so far (target and signal; a negative
  target is a process group). What the operating system answers is a parameter:
  \<open>FindProcess\<close> and \<open>Signal\<close> give the error text of the call, or \<open>None\<close> on success.
\<close>

datatype os_signal = SIGINT | SIGKILL

record world =
  NoColor :: bool
  Stdout :: string
  Kills :: "(int \<times> os_signal) list"

record kernel =
  FindProcess :: "int \<Rightarrow> string option"
  Signal :: "int \<Rightarrow> os_signal \<Rightarrow> string option"

datatype abort = Fatal string | NilDereference

definition Connect :: "multiOutput \<Rightarrow> process \<Rightarrow> multiOutput" where
  "Connect m proc =
     (let m1 = (if length (Name proc) > maxNameLength m
                then m\<lparr>maxNameLength := length (Name proc)\<rparr> else m)
      in m1\<lparr>pipes := (pipes m1)(addr proc \<mapsto> \<lparr>pty = None, tty = None\<rparr>)\<rparr>)"

text \<open>The padding loop of \<^verbatim>\<open>WriteLine\<close>: one space for every \<open>i\<close> from the length of the name up to and including \<open>maxNameLength\<close>.\<close>

function padLoop :: "nat \<Rightarrow> nat \<Rightarrow> string" where
  "padLoop i n = (if i \<le> n then CHR '' '' # padLoop (Suc i) n else [])"
  by pat_completeness auto
termination
  by (relation "measure (\<lambda>(i, n). Suc n - i)") auto

declare padLoop.simps [simp del]

text \<open>The bytes that one call of \<^verbatim>\<open>WriteLine\<close> collects in its buffer before it writes them.\<close>

definition composeLine :: "bool \<Rightarrow> multiOutput \<Rightarrow> process \<Rightarrow> string \<Rightarrow> string" where
  "composeLine noColor m proc p =
     (if printProcName m
      then ColorStart noColor (Color proc)
           @ (if printProcName m
              then Name proc @ padLoop (length (Name proc)) (maxNameLength m) else [])
           @ ColorEnd noColor @ '' ''
      else [])
     @ TrimPrefix p ''/bin/sh: '' @ [LF]"

text \<open>
  \<^verbatim>\<open>WriteLine\<close> writes the buffer to standard output while it holds the mutex; in this
  sequential model the write is one append.
\<close>

definition WriteLine :: "multiOutput \<Rightarrow> process \<Rightarrow> string \<Rightarrow> world \<Rightarrow> world" where
  "WriteLine m proc p w = w\<lparr>Stdout := Stdout w @ composeLine (NoColor w) m proc p\<rparr>"

definition WriteErr :: "multiOutput \<Rightarrow> process \<Rightarrow> string \<Rightarrow> world \<Rightarrow> world" where
  "WriteErr m proc err w = WriteLine m proc (Red (NoColor w) err) w"

definition writeDebug :: "multiOutput \<Rightarrow> process \<Rightarrow> string \<Rightarrow> world \<Rightarrow> world" where
  "writeDebug m p s w = WriteLine m p (Dim (NoColor w) s) w"

text \<open>
  \<^verbatim>\<open>openPipe\<close>: the result of \<^verbatim>\<open>termios.Pty()\<close> is a parameter; its failure ends the
  program (\<^verbatim>\<open>fatalOnErr\<close>). A process that was never connected has no pipe entry, and the
  assignment through the nil pointer panics.
\<close>

definition openPipe :: "string + osFile \<times> osFile \<Rightarrow> multiOutput \<Rightarrow> process \<Rightarrow> abort + multiOutput" where
  "openPipe ptyres m proc =
     (case pipes m (addr proc) of
        None \<Rightarrow> Inl NilDereference
      | Some pipe \<Rightarrow>
          (case ptyres of
             Inl err \<Rightarrow> Inl (Fatal err)
           | Inr (master, slave) \<Rightarrow>
               Inr (m\<lparr>pipes := (pipes m)(addr proc \<mapsto> \<lparr>pty = Some master, tty = Some slave\<rparr>)\<rparr>)))"

definition closeFile :: "osFile option \<Rightarrow> osFile option" where
  "closeFile f = map_option (\<lambda>x. x\<lparr>closed := True\<rparr>) f"

definition ClosePipe :: "multiOutput \<Rightarrow> process \<Rightarrow> multiOutput" where
  "ClosePipe m proc =
     (case pipes m (addr proc) of
        None \<Rightarrow> m
      | Some pipe \<Rightarrow>
          m\<lparr>pipes := (pipes m)(addr proc \<mapsto> \<lparr>pty = closeFile (pty pipe), tty = closeFile (tty pipe)\<rparr>)\<rparr>)"

subsection \<open>Running, Interrupt, Kill\<close>

definition Running :: "process \<Rightarrow> bool" where
  "Running p = (Process p \<noteq> None \<and> ProcessState p = None)"

definition signal :: "kernel \<Rightarrow> multiOutput \<Rightarrow> process \<Rightarrow> os_signal \<Rightarrow> world \<Rightarrow> abort + world" where
  "signal K m p sig w =
     (case Process p of
        None \<Rightarrow> Inl NilDereference
      | Some pid \<Rightarrow>
          (case FindProcess K (- pid) of
             Some err \<Rightarrow> Inr (WriteErr m p err w)
           | None \<Rightarrow>
               (let w1 = w\<lparr>Kills := Kills w @ [(- pid, sig)]\<rparr> in
                case Signal K (- pid) sig of
                  Some err \<Rightarrow> Inr (WriteErr m p err w1)
                | None \<Rightarrow> Inr w1)))"

definition Interrupt :: "kernel \<Rightarrow> multiOutput \<Rightarrow> process \<Rightarrow> world \<Rightarrow> abort + world" where
  "Interrupt K m p w =
     (if Running p
      then signal K m p SIGINT (if \<not> silent p then writeDebug m p ''Interrupting...'' w else w)
      else Inr w)"

definition Kill :: "kernel \<Rightarrow> multiOutput \<Rightarrow> process \<Rightarrow> world \<Rightarrow> abort + world" where
  "Kill K m p w =
     (if Running p
      then signal K m p SIGKILL (if \<not> silent p then writeDebug m p ''Killing...'' w else w)
      else Inr w)"

subsection \<open>Run\<close>

text \<open>
  What \<^verbatim>\<open>p.Cmd.Run()\<close> returns is a parameter: success; an \<^verbatim>\<open>*exec.ExitError\<close> with its
  exit code and its text; or any other error, with the pid when the child had been started.
  The lines that the reader goroutine started by \<^verbatim>\<open>PipeOutput\<close> writes while the command
  runs are not part of \<open>Run\<close>; they are the subject of \<open>scanLines\<close> below.
\<close>

datatype run_result =
    RunOK int
  | ExitError int int string
  | RunError "int option" string

definition afterRun :: "run_result \<Rightarrow> process \<Rightarrow> process" where
  "afterRun res p =
     (case res of
        RunOK pid \<Rightarrow> p\<lparr>Process := Some pid, ProcessState := Some 0\<rparr>
      | ExitError pid code text \<Rightarrow> p\<lparr>Process := Some pid, ProcessState := Some code\<rparr>
      | RunError pido text \<Rightarrow> p\<lparr>Process := pido\<rparr>)"

definition Run :: "string + osFile \<times> osFile \<Rightarrow> run_result \<Rightarrow> multiOutput \<Rightarrow> process \<Rightarrow> world
    \<Rightarrow> abort + process \<times> multiOutput \<times> world" where
  "Run ptyres res m p w =
     (case openPipe ptyres m p of
        Inl a \<Rightarrow> Inl a
      | Inr m1 \<Rightarrow>
          (let w1 = (if \<not> silent p then writeDebug m1 p ''Starting...'' w else w);
               p1 = afterRun res p;
               w2 = (case res of
                       ExitError pid code text \<Rightarrow>
                         if code = 1 then WriteErr m1 p1 text w1
                         else WriteLine m1 p1 (Dim (NoColor w1) (''exit status '' @ itoa code)) w1
                     | RunError pido text \<Rightarrow> WriteErr m1 p1 text w1
                     | RunOK pid \<Rightarrow>
                         if \<not> silent p then writeDebug m1 p1 ''Process exited'' w1 else w1)
           in Inr (p1, ClosePipe m1 p1, w2)))"

section \<open>The process manager\<close>

record Config =
  Cmds :: "string list"
  Root :: string
  Timeout :: int
  Silent :: bool

text \<open>
  Of \<^verbatim>\<open>ProcessManager\<close> the model keeps the fields that \<^verbatim>\<open>New\<close> fills. The timeout is a
  \<^verbatim>\<open>time.Duration\<close>, a signed 64-bit count of nanoseconds; the product
  \<^verbatim>\<open>time.Duration(cfg.Timeout) * time.Second\<close> wraps around when it leaves that range.
\<close>

definition wrap64 :: "int \<Rightarrow> int" where
  "wrap64 x = (x + 2 ^ 63) mod 2 ^ 64 - 2 ^ 63"

record ProcessManager =
  pm_output :: multiOutput
  pm_procs :: "process list"
  pm_timeout :: int
  pm_silent :: bool

text \<open>
  What \<^verbatim>\<open>New\<close> asks of the operating system and of the standard library; the last two
  fields are the parameters \<open>uni\<close> and \<open>rk\<close> of \<open>parseCommands\<close>.
\<close>

record sys =
  Abs :: "string \<Rightarrow> string + string"
  Environ :: "string list"
  Join :: "string \<Rightarrow> string \<Rightarrow> string"
  StatIsDir :: "string \<Rightarrow> bool"
  ReadPackageJSON :: "string \<Rightarrow> readfile"
  EqualFoldUnicode :: "string \<Rightarrow> string \<Rightarrow> bool"
  RangeOrder :: "nat \<Rightarrow> string \<Rightarrow> nat"

definition colors :: "int list" where
  "colors = [2, 3, 4, 5, 6, 42, 130, 103, 129, 108]"

definition injectPathVal :: "string list \<Rightarrow> string \<Rightarrow> string list" where
  "injectPathVal env val =
     map (\<lambda>v. if HasPrefix v ''PATH='' then ''PATH='' @ val @ '':'' @ TrimPrefix v ''PATH='' else v) env"

definition newProcess :: "nat \<Rightarrow> string \<Rightarrow> string \<Rightarrow> int \<Rightarrow> string \<Rightarrow> string list \<Rightarrow> bool
    \<Rightarrow> multiOutput \<Rightarrow> process \<times> multiOutput" where
  "newProcess a n c col dir env sil out =
     (let p = \<lparr>addr = a, Name = n, Color = col, Cmd = c, Dir = dir, Env = env, silent = sil,
                Process = None, ProcessState = None\<rparr>
      in (p, Connect out p))"

text \<open>The loop of \<^verbatim>\<open>New\<close> over the named commands; \<open>i\<close> is the loop index.\<close>

fun addProcs :: "nat \<Rightarrow> command list \<Rightarrow> string \<Rightarrow> string list \<Rightarrow> ProcessManager
    \<Rightarrow> ProcessManager" where
  "addProcs i [] root env pm = pm"
| "addProcs i (c # cs) root env pm =
     (case newProcess i (name c) (cmd c) (colors ! (i mod length colors))
             root env (pm_silent pm) (pm_output pm) of
        (p, out) \<Rightarrow> addProcs (Suc i) cs root env (pm\<lparr>pm_output := out, pm_procs := pm_procs pm @ [p]\<rparr>))"

definition New :: "sys \<Rightarrow> Config \<Rightarrow> error + ProcessManager" where
  "New S cfg =
     (case Abs S (Root cfg) of
        Inl e \<Rightarrow> Inl (ErrAbs e)
      | Inr root \<Rightarrow>
          (let pm = \<lparr>pm_output = \<lparr>maxNameLength = 0, pipes = Map.empty, printProcName = True\<rparr>,
                     pm_procs = [], pm_timeout = wrap64 (Timeout cfg * 1000000000),
                     pm_silent = Silent cfg\<rparr>;
               nodeBin = Join S (Root cfg) ''node_modules/.bin'';
               env = (if StatIsDir S nodeBin then injectPathVal (Environ S) nodeBin else Environ S)
           in case parseCommands (EqualFoldUnicode S) (RangeOrder S) (ReadPackageJSON S) root
                     (Cmds cfg) of
                Inl e \<Rightarrow> Inl e
              | Inr namedCmds \<Rightarrow> Inr (addProcs 0 namedCmds root env pm)))"

section \<open>Run and the shutdown coordinator\<close>

text \<open>
  \<^verbatim>\<open>ProcessManager.Run\<close> starts one goroutine for every process and one for
  \<^verbatim>\<open>waitForExit\<close>, and then waits on the wait group. The goroutines are modelled by their
  positions in the program text, and an execution is modelled as a sequence of steps, each
  step being one statement of one goroutine or an event of the environment (a child
  ending, a signal arriving, time passing). Any interleaving of the steps is an
  execution.

  Positions of the goroutine of \<^verbatim>\<open>Run\<close>: in the loop that calls \<^verbatim>\<open>runProcess\<close> (with the
  index of the next process), in \<^verbatim>\<open>procWg.Wait()\<close>, returned.
\<close>

datatype main_pc = M_loop nat | M_wait | M_returned

text \<open>
  Positions of the goroutine that \<^verbatim>\<open>runProcess\<close> starts: not started; inside
  \<^verbatim>\<open>proc.Run()\<close>; \<^verbatim>\<open>proc.Run()\<close> has returned and the deferred \<^verbatim>\<open>pm.done <- true\<close> is next;
  the deferred \<^verbatim>\<open>procWg.Done()\<close> is next; returned.
\<close>

datatype g_pc = G_unborn | G_running | G_sending | G_finishing | G_gone

text \<open>
  Positions of \<^verbatim>\<open>waitForExit\<close>: not started; in the \<^verbatim>\<open>select\<close> of
  \<^verbatim>\<open>waitForDoneOrInterrupt\<close>; in the loop of \<^verbatim>\<open>go proc.Interrupt()\<close> (with the loop index);
  in the \<^verbatim>\<open>select\<close> of \<^verbatim>\<open>waitForTimeoutOrInterrupt\<close> (with the time at which the timer of
  \<^verbatim>\<open>time.After\<close> fires); in the loop of \<^verbatim>\<open>go proc.Kill()\<close>; returned.
\<close>

datatype c_pc = C_unborn | C_wait1 | C_interrupting nat | C_wait2 int | C_killing nat | C_end

datatype cause = ByDone | BySignal | ByTimer

datatype call = CallInterrupt nat | CallKill nat

text \<open>
  The state: the three kinds of position, the counter of the wait group, the number of
  values in the buffer of \<^verbatim>\<open>pm.done\<close>, and the clock. Four fields record the history and
  influence no step: the number of signals that have arrived, which case ended each of the
  two \<^verbatim>\<open>select\<close> statements, and the \<^verbatim>\<open>go proc.Interrupt()\<close> and \<^verbatim>\<open>go proc.Kill()\<close>
  statements executed so far, each with the time of its execution.
\<close>

record mstate =
  mainpc :: main_pc
  wg :: nat
  gor :: "g_pc list"
  done_buf :: nat
  coord :: c_pc
  clock :: int
  arrived :: nat
  trigger1 :: "cause option"
  trigger2 :: "cause option"
  issued :: "(int \<times> call) list"

datatype label =
    Spawn
  | StartCoordinator
  | WaitReturns
  | ProcReturns nat
  | SendDone nat
  | WgDone nat
  | RecvDone
  | RecvSignal
  | DropSignal
  | GoInterrupt
  | ArmTimer
  | TimerFires
  | GoKill
  | CoordReturns
  | Tick


text \<open>
  One step; \<open>None\<close> when the statement cannot be executed in the state (the goroutine is
  elsewhere, or it is blocked). \<^verbatim>\<open>pm.done\<close> is buffered with one place for every process;
  \<^verbatim>\<open>pm.interrupted\<close> is unbuffered, and \<^verbatim>\<open>signal.Notify\<close> does not block, so that a signal
  can be received only when \<^verbatim>\<open>waitForExit\<close> is in one of its \<^verbatim>\<open>select\<close> statements, and
  is dropped when no receiver is ready for it.
\<close>

definition step :: "ProcessManager \<Rightarrow> label \<Rightarrow> mstate \<Rightarrow> mstate option" where
  "step pm l s =
     (let n = length (pm_procs pm) in
      case l of
        Spawn \<Rightarrow>
          (case mainpc s of
             M_loop i \<Rightarrow>
               if i < n
               then Some (s\<lparr>wg := wg s + 1, gor := (gor s)[i := G_running], mainpc := M_loop (Suc i)\<rparr>)
               else None
           | _ \<Rightarrow> None)
      | StartCoordinator \<Rightarrow>
          (case mainpc s of
             M_loop i \<Rightarrow> if i = n then Some (s\<lparr>coord := C_wait1, mainpc := M_wait\<rparr>) else None
           | _ \<Rightarrow> None)
      | WaitReturns \<Rightarrow>
          if mainpc s = M_wait \<and> wg s = 0 then Some (s\<lparr>mainpc := M_returned\<rparr>) else None
      | ProcReturns i \<Rightarrow>
          if i < n \<and> gor s ! i = G_running then Some (s\<lparr>gor := (gor s)[i := G_sending]\<rparr>)
          else None
      | SendDone i \<Rightarrow>
          if i < n \<and> gor s ! i = G_sending \<and> done_buf s < n
          then Some (s\<lparr>gor := (gor s)[i := G_finishing], done_buf := done_buf s + 1\<rparr>)
          else None
      | WgDone i \<Rightarrow>
          if i < n \<and> gor s ! i = G_finishing \<and> 0 < wg s
          then Some (s\<lparr>gor := (gor s)[i := G_gone], wg := wg s - 1\<rparr>)
          else None
      | RecvDone \<Rightarrow>
          if coord s = C_wait1 \<and> 0 < done_buf s
          then Some (s\<lparr>done_buf := done_buf s - 1, coord := C_interrupting 0,
                       trigger1 := Some ByDone\<rparr>)
          else None
      | RecvSignal \<Rightarrow>
          (case coord s of
             C_wait1 \<Rightarrow>
               Some (s\<lparr>arrived := arrived s + 1, coord := C_interrupting 0,
                       trigger1 := Some BySignal\<rparr>)
           | C_wait2 d \<Rightarrow>
               Some (s\<lparr>arrived := arrived s + 1, coord := C_killing 0,
                       trigger2 := Some BySignal\<rparr>)
           | _ \<Rightarrow> None)
      | DropSignal \<Rightarrow> Some (s\<lparr>arrived := arrived s + 1\<rparr>)
      | GoInterrupt \<Rightarrow>
          (case coord s of
             C_interrupting i \<Rightarrow>
               if i < n
               then Some (s\<lparr>issued := issued s @ [(clock s, CallInterrupt i)],
                            coord := C_interrupting (Suc i)\<rparr>)
               else None
           | _ \<Rightarrow> None)
      | ArmTimer \<Rightarrow>
          (case coord s of
             C_interrupting i \<Rightarrow>
               if i = n then Some (s\<lparr>coord := C_wait2 (clock s + pm_timeout pm)\<rparr>) else None
           | _ \<Rightarrow> None)
      | TimerFires \<Rightarrow>
          (case coord s of
             C_wait2 d \<Rightarrow>
               if d \<le> clock s then Some (s\<lparr>coord := C_killing 0, trigger2 := Some ByTimer\<rparr>)
               else None
           | _ \<Rightarrow> None)
      | GoKill \<Rightarrow>
          (case coord s of
             C_killing i \<Rightarrow>
               if i < n
               then Some (s\<lparr>issued := issued s @ [(clock s, CallKill i)],
                            coord := C_killing (Suc i)\<rparr>)
               else None
           | _ \<Rightarrow> None)
      | CoordReturns \<Rightarrow>
          (case coord s of
             C_killing i \<Rightarrow> if i = n then Some (s\<lparr>coord := C_end\<rparr>) else None
           | _ \<Rightarrow> None)
      | Tick \<Rightarrow> Some (s\<lparr>clock := clock s + 1\<rparr>))"

text \<open>The state after a sequence of steps, when every step of the sequence can be taken.\<close>

fun run :: "ProcessManager \<Rightarrow> label list \<Rightarrow> mstate \<Rightarrow> mstate option" where
  "run pm [] s = Some s"
| "run pm (l # ls) s = (case step pm l s of None \<Rightarrow> None | Some s1 \<Rightarrow> run pm ls s1)"


section \<open>The line scanner\<close>

text \<open>
  \<^verbatim>\<open>scanLines\<close> reads through a \<^verbatim>\<open>bufio.Reader\<close> of the default size. The reader is
  modelled by what is still to be handed out: the bytes not yet returned (those in its
  buffer and those the source has still to deliver), the error with which the source ends,
  and whether the source reports that error in the same \<^verbatim>\<open>Read\<close> as its last bytes or in
  a \<^verbatim>\<open>Read\<close> of its own (as a file does). The model assumes what holds of a file
  descriptor: the source keeps returning its final error once it has reported it, it never
  returns the reader's own \<^verbatim>\<open>ErrBufferFull\<close>, and it does not return empty reads without
  an error.

  The errors of the source: \<^verbatim>\<open>io.EOF\<close>; \<^verbatim>\<open>io.ErrClosedPipe\<close>, the error of a closed
  \<^verbatim>\<open>io.Pipe\<close>; the error of a \<^verbatim>\<open>Read\<close> on an \<^verbatim>\<open>*os.File\<close> that has been closed, which is
  an \<^verbatim>\<open>*fs.PathError\<close> around \<^verbatim>\<open>os.ErrClosed\<close> (the pseudo-terminal that \<^verbatim>\<open>PipeOutput\<close>
  passes is such a file, closed by \<^verbatim>\<open>ClosePipe\<close>); any other error, with its text.
\<close>

datatype src_error = EOF | ErrClosedPipe | FileClosed string | OtherError string

datatype read_error = ErrBufferFull | SrcError src_error

record reader =
  unread :: string
  final :: src_error
  errWithData :: bool

definition defaultBufSize :: nat where
  "defaultBufSize = 4096"

text \<open>
  \<^verbatim>\<open>ReadSlice('\n')\<close>: the bytes up to and including the first line feed when it lies
  within one buffer; otherwise, when the source ends before the buffer is full, the
  remaining bytes together with the final error; otherwise a full buffer and
  \<^verbatim>\<open>ErrBufferFull\<close>.
\<close>

definition ReadSlice :: "reader \<Rightarrow> string \<times> read_error option \<times> reader" where
  "ReadSlice b =
     (let window = take defaultBufSize (unread b) in
      if LF \<in> set window then
        (let i = length (takeWhile (\<lambda>c. c \<noteq> LF) window)
         in (take (Suc i) (unread b), None, b\<lparr>unread := drop (Suc i) (unread b)\<rparr>))
      else if length (unread b) < defaultBufSize
              \<or> (length (unread b) = defaultBufSize \<and> errWithData b)
      then (unread b, Some (SrcError (final b)), b\<lparr>unread := []\<rparr>)
      else (window, Some ErrBufferFull, b\<lparr>unread := drop defaultBufSize (unread b)\<rparr>))"

text \<open>
  \<^verbatim>\<open>ReadLine\<close>, following the library: a full buffer is returned as a prefix, with a
  trailing carriage return put back; an empty slice passes the error on; any other slice is
  returned without error and without its line end (\<open>\n\<close> or \<open>\r\n\<close>).
\<close>

definition ReadLine :: "reader \<Rightarrow> (string \<times> bool \<times> src_error option) \<times> reader" where
  "ReadLine b =
     (case ReadSlice b of (line, err, b1) \<Rightarrow>
        if err = Some ErrBufferFull then
          (if length line > 0 \<and> last line = CR
           then ((butlast line, True, None), b1\<lparr>unread := CR # unread b1\<rparr>)
           else ((line, True, None), b1))
        else if length line = 0 then
          (([], False, (case err of Some (SrcError e) \<Rightarrow> Some e | _ \<Rightarrow> None)), b1)
        else
          (let line1 =
             (if last line = LF
              then take (length line -
                     (if length line > 1 \<and> line ! (length line - 2) = CR then 2 else 1)) line
              else line)
           in ((line1, False, None), b1)))"

lemma ReadLine_progress:
  "ReadLine b = ((line, isPrefix, None), b1) \<Longrightarrow> length (unread b1) < length (unread b)"
  by (auto simp: ReadLine_def ReadSlice_def Let_def defaultBufSize_def
      split: if_splits prod.splits option.splits read_error.splits)

text \<open>
  The loop of \<^verbatim>\<open>scanLines\<close>. The callback of the source has effects; here it takes the
  state it acts on and returns it with its verdict. The result is the error returned
  (\<open>None\<close> for nil) and the state the callback left.
\<close>

function scanLoop :: "('s \<Rightarrow> string \<Rightarrow> bool \<times> 's) \<Rightarrow> reader \<Rightarrow> string \<Rightarrow> 's
    \<Rightarrow> src_error option \<times> 's" where
  "scanLoop callback rd buf s =
     (case ReadLine rd of
        ((line, isPrefix, Some err), rd1) \<Rightarrow>
          (if err \<noteq> EOF \<and> err \<noteq> ErrClosedPipe then Some err else None, s)
      | ((line, isPrefix, None), rd1) \<Rightarrow>
          (if \<not> isPrefix
           then (case callback s (buf @ line) of
                   (ok, s1) \<Rightarrow> if \<not> ok then (None, s1) else scanLoop callback rd1 [] s1)
           else scanLoop callback rd1 (buf @ line) s))"
  by pat_completeness auto
termination
  by (relation "measure (\<lambda>(callback, rd, buf, s). length (unread rd))")
     (auto dest: ReadLine_progress [OF sym])

declare scanLoop.simps [simp del]

definition scanLines :: "reader \<Rightarrow> ('s \<Rightarrow> string \<Rightarrow> bool \<times> 's) \<Rightarrow> 's \<Rightarrow> src_error option \<times> 's" where
  "scanLines r callback s = scanLoop callback r [] s"

text \<open>The callback that \<^verbatim>\<open>PipeOutput\<close> passes: write the line, go on.\<close>

definition pipeCallback :: "multiOutput \<Rightarrow> process \<Rightarrow> world \<Rightarrow> string \<Rightarrow> bool \<times> world" where
  "pipeCallback m proc w b = (True, WriteLine m proc b w)"

section \<open>Notions used to state the properties\<close>

text \<open>
  The wording of the specification, as definitions of their own. A stream of complete
  lines; a line without its carriage return; a callback run over a list of lines until it
  asks to stop; and the error that \<open>scanLines\<close> reports for the error that ended the stream.
\<close>

definition terminated :: "string list \<Rightarrow> string" where
  "terminated ls = concat (map (\<lambda>l. l @ [LF]) ls)"

definition chomp :: "string \<Rightarrow> string" where
  "chomp l = (if l \<noteq> [] \<and> last l = CR then butlast l else l)"

fun feed :: "('s \<Rightarrow> string \<Rightarrow> bool \<times> 's) \<Rightarrow> 's \<Rightarrow> string list \<Rightarrow> bool \<times> 's" where
  "feed callback s [] = (True, s)"
| "feed callback s (l # ls) =
     (case callback s l of (ok, s1) \<Rightarrow> if ok then feed callback s1 ls else (False, s1))"

definition errResult :: "src_error \<Rightarrow> src_error option" where
  "errResult e = (if e \<noteq> EOF \<and> e \<noteq> ErrClosedPipe then Some e else None)"

definition finish :: "src_error \<Rightarrow> bool \<times> 's \<Rightarrow> src_error option \<times> 's" where
  "finish e r = (case r of (ok, s1) \<Rightarrow> (if ok then errResult e else None, s1))"

definition recording :: "(string \<Rightarrow> bool) \<Rightarrow> string list \<Rightarrow> string \<Rightarrow> bool \<times> string list" where
  "recording go_on calls b = (go_on b, calls @ [b])"

text \<open>
  The display name as the specification words it: the base name of the first
  white-space-delimited token, \<open>cmd\<close> when that is empty. The token is what follows the
  leading white space, up to the next white-space rune.
\<close>

fun untilSpace :: "string \<Rightarrow> string" where
  "untilSpace [] = []"
| "untilSpace (x # xs) = (if leadingSpace (x # xs) \<noteq> None then [] else x # untilSpace xs)"

definition spec_firstToken :: "string \<Rightarrow> string" where
  "spec_firstToken c = untilSpace (TrimLeft c)"

definition spec_displayName :: "string \<Rightarrow> string" where
  "spec_displayName c =
     (let n = Base (spec_firstToken c) in if n = [] \<or> n = ''.'' \<or> n = ''/'' then ''cmd'' else n)"

text \<open>A command in which the space character is the only white space.\<close>

definition blanksOnly :: "string \<Rightarrow> bool" where
  "blanksOnly c = (\<forall>r \<in> set spaceRunes. sublist r c \<longrightarrow> r = '' '')"

text \<open>ASCII text, and its lower-case form.\<close>

definition isASCII :: "string \<Rightarrow> bool" where
  "isASCII s = (\<forall>c \<in> set s. (of_char c :: nat) < 128)"

definition toLower :: "char \<Rightarrow> char" where
  "toLower c =
     (if 65 \<le> (of_char c :: nat) \<and> (of_char c :: nat) \<le> 90 then char_of (of_char c + 32 :: nat)
      else c)"

text \<open>
  Numbering of equal names: the name at position \<open>i\<close> stays when it occurs once in the
  list, and otherwise gets the suffix \<open>.k\<close>, where \<open>k\<close> counts the occurrences of the name
  up to and including position \<open>i\<close>.
\<close>

definition rank :: "string list \<Rightarrow> nat \<Rightarrow> nat" where
  "rank names i = count_list (take i names) (names ! i)"

definition numberedName :: "string list \<Rightarrow> nat \<Rightarrow> string" where
  "numberedName names i =
     (if count_list names (names ! i) > 1
      then names ! i @ ''.'' @ itoa (int (rank names i) + 1)
      else names ! i)"

definition numbered :: "command list \<Rightarrow> command list" where
  "numbered cs =
     map (\<lambda>i. \<lparr>name = numberedName (map name cs) i, cmd = cmd (cs ! i)\<rparr>) [0..<length cs]"

definition isNpm :: "string \<Rightarrow> bool" where
  "isNpm c = HasPrefix (derivedName c) ''npm:''"

definition plainCommand :: "string \<Rightarrow> command" where
  "plainCommand c = \<lparr>name = derivedName c, cmd = c\<rparr>"

section \<open>Auxiliary notions of the proofs\<close>

text \<open>The positions of the commands with a given name, and the rank of a position among them.\<close>

definition idxsOf :: "command list \<Rightarrow> string \<Rightarrow> nat list" where
  "idxsOf result k = filter (\<lambda>i. name (result ! i) = k) [0..<length result]"

definition posOf :: "nat \<Rightarrow> nat list \<Rightarrow> nat" where
  "posOf j idxs = length (takeWhile (\<lambda>i. i \<noteq> j) idxs)"

text \<open>A command under the name \<open>n\<close> with the suffix of rank \<open>i\<close>.\<close>

definition relabel :: "string \<Rightarrow> nat \<Rightarrow> command \<Rightarrow> command" where
  "relabel n i c = c\<lparr>name := n @ ''.'' @ itoa (int i + 1)\<rparr>"

text \<open>The process that \<^verbatim>\<open>New\<close> builds for the command at position \<open>j\<close>.\<close>

definition mkProc :: "string \<Rightarrow> string list \<Rightarrow> bool \<Rightarrow> nat \<Rightarrow> command \<Rightarrow> process" where
  "mkProc root env sil j c =
     \<lparr>addr = j, Name = name c, Color = colors ! (j mod length colors), Cmd = cmd c, Dir = root,
      Env = env, silent = sil, Process = None, ProcessState = None\<rparr>"

text \<open>
  A command of the \<open>npm:\<close> kind that names no script of the table and, when it holds a
  wildcard, matches none.
\<close>

definition unresolved :: "(string \<Rightarrow> string \<Rightarrow> bool) \<Rightarrow> scripts \<Rightarrow> string \<Rightarrow> bool" where
  "unresolved uni tbl c =
     (let scriptName = TrimPrefix c ''npm:'' in
      map_of tbl scriptName = None \<and>
      (Contains scriptName CHR ''*'' \<longrightarrow> (\<forall>(n, pcmd) \<in> set tbl. \<not> wildcardMatch uni scriptName n)))"





text \<open>
  When the timer ended the second \<^verbatim>\<open>select\<close>, the timeout has elapsed since every
  \<^verbatim>\<open>Interrupt\<close>, and it had when each \<^verbatim>\<open>Kill\<close> was started.
\<close>

definition timing :: "ProcessManager \<Rightarrow> mstate \<Rightarrow> bool" where
  "timing pm s =
     (trigger2 s = Some ByTimer \<longrightarrow>
        (\<forall>t j. (t, CallInterrupt j) \<in> set (issued s) \<longrightarrow>
           t + pm_timeout pm \<le> clock s \<and>
           (\<forall>t' k. (t', CallKill k) \<in> set (issued s) \<longrightarrow> t + pm_timeout pm \<le> t')))"




section \<open>Facts about the string functions\<close>

lemma HasPrefix_iff_prefix: "HasPrefix s p \<longleftrightarrow> prefix p s"
  unfolding HasPrefix_def prefix_def
  by (metis append_eq_conv_conj append_take_drop_id length_append le_add1)

lemma HasSuffix_iff_suffix: "HasSuffix s p \<longleftrightarrow> suffix p s"
proof
  assume "HasSuffix s p"
  then have "drop (length s - length p) s = p" by (simp add: HasSuffix_def)
  then have "s = take (length s - length p) s @ p" by (metis append_take_drop_id)
  then show "suffix p s" unfolding suffix_def by blast
next
  assume "suffix p s"
  then obtain q where "s = q @ p" unfolding suffix_def by blast
  then show "HasSuffix s p" by (simp add: HasSuffix_def)
qed

lemma HasPrefix_Nil [simp]: "HasPrefix s []"
  by (simp add: HasPrefix_def)

lemma HasSuffix_Nil [simp]: "HasSuffix s []"
  by (simp add: HasSuffix_def)

lemma Split_not_Nil [simp]: "Split s sep \<noteq> []"
  by (induction s) (auto split: list.splits)

lemma length_Split: "length (Split s sep) = Suc (count_list s sep)"
  by (induction s) (auto split: list.splits)

lemma Split_no_sep: "sep \<notin> set s \<Longrightarrow> Split s sep = [s]"
  by (induction s) auto

lemma Split_append_sep:
  "sep \<notin> set pre \<Longrightarrow> Split (pre @ sep # post) sep = pre # Split post sep"
  by (induction pre) auto

lemma count_list_0_iff_notin: "count_list s c = 0 \<longleftrightarrow> c \<notin> set s"
  by (induction s) auto

section \<open>The three cases of wildcardMatch\<close>

lemma one_star_decomp:
  assumes "count_list pattern c = 1"
  shows "pattern = takeWhile (\<lambda>x. x \<noteq> c) pattern @ c # tl (dropWhile (\<lambda>x. x \<noteq> c) pattern)
    \<and> c \<notin> set (takeWhile (\<lambda>x. x \<noteq> c) pattern)
    \<and> c \<notin> set (tl (dropWhile (\<lambda>x. x \<noteq> c) pattern))"
  using assms
proof (induction pattern)
  case Nil
  then show ?case by simp
next
  case (Cons a pattern)
  show ?case
  proof (cases "a = c")
    case True
    with Cons.prems have "count_list pattern c = 0" by simp
    then have "c \<notin> set pattern" by (simp add: count_list_0_iff_notin)
    with True show ?thesis by simp
  next
    case False
    with Cons.prems have "count_list pattern c = 1" by simp
    from Cons.IH [OF this] False show ?thesis by simp
  qed
qed

lemma of_char_toLower:
  "(of_char (toLower c) :: nat) =
     (if 65 \<le> (of_char c :: nat) \<and> (of_char c :: nat) \<le> 90 then of_char c + 32 else of_char c)"
  by (simp add: toLower_def)

lemma fold_eq_toLower:
  assumes "(of_char a :: nat) < 128" "(of_char b :: nat) < 128"
  shows "fold_eq a b \<longleftrightarrow> toLower a = toLower b"
proof -
  have "toLower a = toLower b \<longleftrightarrow> (of_char (toLower a) :: nat) = of_char (toLower b)"
    by simp
  also have "\<dots> \<longleftrightarrow> fold_eq a b"
    unfolding of_char_toLower fold_eq_def Let_def min_def max_def by auto
  finally show ?thesis by simp
qed

lemma EqualFold_ascii:
  "isASCII p \<Longrightarrow> isASCII s \<Longrightarrow> EqualFold uni p s = (map toLower p = map toLower s)"
proof (induction p arbitrary: s)
  case Nil
  then show ?case by (cases s) simp_all
next
  case (Cons a p)
  show ?case
  proof (cases s)
    case Nil
    then show ?thesis by simp
  next
    case (Cons b t)
    with Cons.prems have a: "(of_char a :: nat) < 128" and b: "(of_char b :: nat) < 128"
      and p: "isASCII p" and t: "isASCII t"
      by (simp_all add: isASCII_def)
    from a b Cons.IH [OF p t] show ?thesis
      unfolding Cons by (simp add: fold_eq_toLower)
  qed
qed

text \<open>
  C8. For every pattern and string \<open>s\<close>: a pattern without \<open>*\<close> matches exactly the strings
  equal to it up to letter case: the match is \<^verbatim>\<open>strings.EqualFold\<close>, and for a pattern and
  a string of ASCII text it holds exactly when the two have the same lower-case form; a
  pattern with exactly one \<open>*\<close> matches exactly the strings that start with the part before
  the \<open>*\<close> and end with the part after it; a pattern with two or more \<open>*\<close> matches nothing.
\<close>

theorem wildcardMatch_cases:
  "(count_list pattern CHR ''*'' = 0 \<longrightarrow>
      wildcardMatch uni pattern s = EqualFold uni pattern s \<and>
      (isASCII pattern \<and> isASCII s \<longrightarrow>
         wildcardMatch uni pattern s = (map toLower pattern = map toLower s))) \<and>
   (count_list pattern CHR ''*'' = 1 \<longrightarrow>
      wildcardMatch uni pattern s =
        (prefix (takeWhile (\<lambda>c. c \<noteq> CHR ''*'') pattern) s \<and>
         suffix (tl (dropWhile (\<lambda>c. c \<noteq> CHR ''*'') pattern)) s)) \<and>
   (count_list pattern CHR ''*'' \<ge> 2 \<longrightarrow> \<not> wildcardMatch uni pattern s)"
proof (intro conjI impI)
  assume "count_list pattern CHR ''*'' = 0"
  then show e: "wildcardMatch uni pattern s = EqualFold uni pattern s"
    by (simp add: wildcardMatch_def length_Split)
  assume "isASCII pattern \<and> isASCII s"
  then show "wildcardMatch uni pattern s = (map toLower pattern = map toLower s)"
    by (simp add: e EqualFold_ascii)
next
  let ?pre = "takeWhile (\<lambda>c. c \<noteq> CHR ''*'') pattern"
  let ?post = "tl (dropWhile (\<lambda>c. c \<noteq> CHR ''*'') pattern)"
  assume "count_list pattern CHR ''*'' = 1"
  from one_star_decomp [OF this]
  have p: "pattern = ?pre @ CHR ''*'' # ?post"
    and n: "CHR ''*'' \<notin> set ?pre" "CHR ''*'' \<notin> set ?post"
    by blast+
  have "Split (?pre @ CHR ''*'' # ?post) CHR ''*'' = [?pre, ?post]"
    using n by (simp add: Split_append_sep Split_no_sep)
  with p have "Split pattern CHR ''*'' = [?pre, ?post]" by simp
  then show "wildcardMatch uni pattern s = (prefix ?pre s \<and> suffix ?post s)"
    by (auto simp: wildcardMatch_def HasPrefix_iff_prefix [symmetric]
        HasSuffix_iff_suffix [symmetric])
next
  assume "2 \<le> count_list pattern CHR ''*''"
  then show "\<not> wildcardMatch uni pattern s"
    by (simp add: wildcardMatch_def length_Split)
qed

theorem wildcardMatch_cases_witness:
  "wildcardMatch (\<lambda>s t. False) ''Test'' ''tEST'' \<and> \<not> wildcardMatch (\<lambda>s t. False) ''b'' ''a'' \<and>
   wildcardMatch (\<lambda>s t. False) ''dev:*'' ''dev:css'' \<and>
   \<not> wildcardMatch (\<lambda>s t. False) ''hello:*'' ''helloz:world'' \<and>
   wildcardMatch (\<lambda>s t. False) ''hello:*:jones'' ''hello:world:jones'' \<and>
   \<not> wildcardMatch (\<lambda>s t. False) ''a*b*c'' ''a*b*c''"
  using wildcardMatch_cases [of "''Test''" "\<lambda>s t. False" "''tEST''"]
    wildcardMatch_cases [of "''b''" "\<lambda>s t. False" "''a''"]
    wildcardMatch_cases [of "''dev:*''" "\<lambda>s t. False" "''dev:css''"]
    wildcardMatch_cases [of "''hello:*''" "\<lambda>s t. False" "''helloz:world''"]
    wildcardMatch_cases [of "''hello:*:jones''" "\<lambda>s t. False" "''hello:world:jones''"]
    wildcardMatch_cases [of "''a*b*c''" "\<lambda>s t. False" "''a*b*c''"]
  by (simp add: fold_eq_def isASCII_def toLower_def suffix_to_prefix)

section \<open>Renaming of duplicate names\<close>

lemma idxsOf_snoc:
  "idxsOf (xs @ [x]) k = idxsOf xs k @ (if name x = k then [length xs] else [])"
proof -
  have "filter (\<lambda>i. name ((xs @ [x]) ! i) = k) [0..<length xs]
      = filter (\<lambda>i. name (xs ! i) = k) [0..<length xs]"
    by (rule filter_cong) (auto simp: nth_append)
  then show ?thesis by (simp add: idxsOf_def)
qed

lemma namesMap_snoc:
  "namesMap (xs @ [x]) =
     (namesMap xs)(name x \<mapsto> (case namesMap xs (name x) of None \<Rightarrow> [] | Some idxs \<Rightarrow> idxs) @ [length xs])"
  by (simp add: namesMap_def enumerate_append_eq)

lemma namesMap_eq:
  "namesMap result k = (if k \<in> name ` set result then Some (idxsOf result k) else None)"
proof (induction result rule: rev_induct)
  case Nil
  then show ?case by (simp add: namesMap_def)
next
  case (snoc x xs)
  have empty: "k \<notin> name ` set xs \<Longrightarrow> idxsOf xs k = []" for k
    by (auto simp: idxsOf_def filter_empty_conv)
  show ?case
    using snoc
    by (auto simp: namesMap_snoc idxsOf_snoc empty namesMap_snoc split: option.splits if_splits)
qed

lemma renameGroup_fold:
  "distinct idxs \<Longrightarrow> \<forall>idx \<in> set idxs. idx < length r \<Longrightarrow>
   length (fold (\<lambda>(i, idx) r. r[idx := relabel n i (r ! idx)]) (enumerate k idxs) r) = length r \<and>
   (\<forall>j < length r.
      fold (\<lambda>(i, idx) r. r[idx := relabel n i (r ! idx)]) (enumerate k idxs) r ! j =
        (if j \<in> set idxs then relabel n (k + posOf j idxs) (r ! j) else r ! j))"
proof (induction idxs arbitrary: k r)
  case Nil
  then show ?case by simp
next
  case (Cons a idxs)
  let ?r1 = "r[a := relabel n k (r ! a)]"
  have d: "distinct idxs" and a: "a \<notin> set idxs" "a < length r"
    and b: "\<forall>idx \<in> set idxs. idx < length ?r1"
    using Cons.prems by auto
  from Cons.IH [OF d b, of "Suc k"] a
  show ?case
    by (auto simp: posOf_def nth_list_update)
qed

lemma renameGroup_nth:
  assumes "distinct idxs" "\<forall>idx \<in> set idxs. idx < length r"
  shows "length (renameGroup n idxs r) = length r"
    and "j < length r \<Longrightarrow> renameGroup n idxs r ! j =
        (if j \<in> set idxs then relabel n (posOf j idxs) (r ! j) else r ! j)"
  using renameGroup_fold [OF assms, of n 0]
  by (auto simp: renameGroup_def relabel_def [abs_def])

lemma renameAll_nth:
  assumes "distinct keys"
    and "\<And>k idxs. k \<in> set keys \<Longrightarrow> m k = Some idxs \<Longrightarrow>
           distinct idxs \<and> set idxs = {j. j < length r \<and> g j = k}"
  shows "length (renameAll keys m r) = length r \<and>
    (\<forall>j < length r. renameAll keys m r ! j =
       (case (if g j \<in> set keys then m (g j) else None) of
          None \<Rightarrow> r ! j
        | Some idxs \<Rightarrow> if length idxs > 1 then relabel (g j) (posOf j idxs) (r ! j) else r ! j))"
  using assms
proof (induction keys arbitrary: r)
  case Nil
  then show ?case by (simp add: renameAll_def)
next
  case (Cons k keys)
  define r1 where "r1 = (case m k of None \<Rightarrow> r
     | Some idxs \<Rightarrow> if length idxs > 1 then renameGroup k idxs r else r)"
  have step: "renameAll (k # keys) m r = renameAll keys m r1"
    by (simp add: renameAll_def r1_def)
  have grp: "\<And>idxs. m k = Some idxs \<Longrightarrow>
      distinct idxs \<and> set idxs = {j. j < length r \<and> g j = k}"
    using Cons.prems(2) [of k] by simp
  have len1: "length r1 = length r"
    using grp by (auto simp: r1_def renameGroup_nth(1) split: option.splits)
  have nth1: "r1 ! j = (case m k of None \<Rightarrow> r ! j
       | Some idxs \<Rightarrow> if length idxs > 1 \<and> g j = k
           then relabel k (posOf j idxs) (r ! j) else r ! j)" if "j < length r" for j
    using grp that by (auto simp: r1_def renameGroup_nth(2) split: option.splits)
  have dk: "distinct keys" "k \<notin> set keys" using Cons.prems(1) by auto
  have pre: "\<And>k' idxs. k' \<in> set keys \<Longrightarrow> m k' = Some idxs \<Longrightarrow>
      distinct idxs \<and> set idxs = {j. j < length r1 \<and> g j = k'}"
    using Cons.prems(2) len1 by auto
  from Cons.IH [OF dk(1) pre]
  have IH: "length (renameAll keys m r1) = length r1"
    "\<And>j. j < length r1 \<Longrightarrow> renameAll keys m r1 ! j =
       (case (if g j \<in> set keys then m (g j) else None) of
          None \<Rightarrow> r1 ! j
        | Some idxs \<Rightarrow> if length idxs > 1 then relabel (g j) (posOf j idxs) (r1 ! j) else r1 ! j)"
    by auto
  show ?case
  proof (intro conjI allI impI)
    show "length (renameAll (k # keys) m r) = length r"
      by (simp add: step IH(1) len1)
  next
    fix j assume j: "j < length r"
    then have j1: "j < length r1" by (simp add: len1)
    show "renameAll (k # keys) m r ! j =
       (case (if g j \<in> set (k # keys) then m (g j) else None) of
          None \<Rightarrow> r ! j
        | Some idxs \<Rightarrow> if length idxs > 1 then relabel (g j) (posOf j idxs) (r ! j) else r ! j)"
      using dk(2) by (auto simp: step IH(2) [OF j1] nth1 [OF j] split: option.splits)
  qed
qed

lemma idxsOf_props:
  "distinct (idxsOf result k)" "set (idxsOf result k) = {j. j < length result \<and> name (result ! j) = k}"
  by (auto simp: idxsOf_def)

lemma length_filter_upt_count:
  "j \<le> length xs \<Longrightarrow> length (filter (\<lambda>i. xs ! i = k) [0..<j]) = count_list (take j xs) k"
proof (induction j)
  case 0
  then show ?case by simp
next
  case (Suc j)
  then have "take (Suc j) xs = take j xs @ [xs ! j]"
    by (simp add: take_Suc_conv_app_nth)
  with Suc show ?case by simp
qed

lemma length_idxsOf: "length (idxsOf result k) = count_list (map name result) k"
proof -
  have "filter (\<lambda>i. name (result ! i) = k) [0..<length result]
      = filter (\<lambda>i. map name result ! i = k) [0..<length result]"
    by (rule filter_cong) auto
  then show ?thesis
    using length_filter_upt_count [of "length result" "map name result" k]
    by (simp add: idxsOf_def)
qed

lemma upt_split_at: "j < n \<Longrightarrow> [0..<n] = [0..<j] @ j # [Suc j..<n]"
proof -
  assume "j < n"
  then have "[0..<j + (n - j)] = [0..<j] @ [j..<j + (n - j)]"
    by (intro upt_add_eq_append) simp
  with \<open>j < n\<close> show ?thesis
    by (simp add: upt_conv_Cons)
qed

lemma posOf_idxsOf:
  assumes "j < length result"
  shows "posOf j (idxsOf result (name (result ! j))) =
         count_list (take j (map name result)) (name (result ! j))"
proof -
  let ?P = "\<lambda>i. name (result ! i) = name (result ! j)"
  have "idxsOf result (name (result ! j)) = filter ?P ([0..<j] @ j # [Suc j..<length result])"
    unfolding idxsOf_def by (subst upt_split_at [OF assms]) (rule refl)
  then have "idxsOf result (name (result ! j)) =
      filter ?P [0..<j] @ j # filter ?P [Suc j..<length result]"
    by simp
  moreover have "takeWhile (\<lambda>i. i \<noteq> j) (filter ?P [0..<j] @ j # filter ?P [Suc j..<length result])
      = filter ?P [0..<j] @ takeWhile (\<lambda>i. i \<noteq> j) (j # filter ?P [Suc j..<length result])"
    by (rule takeWhile_append2) auto
  ultimately have "posOf j (idxsOf result (name (result ! j))) = length (filter ?P [0..<j])"
    by (simp add: posOf_def)
  also have "filter ?P [0..<j] = filter (\<lambda>i. map name result ! i = name (result ! j)) [0..<j]"
    using assms by (intro filter_cong) auto
  also have "length \<dots> = count_list (take j (map name result)) (name (result ! j))"
    using assms by (simp add: length_filter_upt_count)
  finally show ?thesis .
qed

lemma renameAll_namesMap_nth:
  assumes "distinct keys" "set keys = name ` set result" "j < length result"
  shows "length (renameAll keys (namesMap result) result) = length result"
    and "renameAll keys (namesMap result) result ! j =
        (if count_list (map name result) (name (result ! j)) > 1
         then relabel (name (result ! j)) (rank (map name result) j) (result ! j)
         else result ! j)"
proof -
  have grp: "\<And>k idxs. k \<in> set keys \<Longrightarrow> namesMap result k = Some idxs \<Longrightarrow>
      distinct idxs \<and> set idxs = {j. j < length result \<and> name (result ! j) = k}"
    by (auto simp: namesMap_eq idxsOf_props split: if_splits)
  from renameAll_nth [OF assms(1), of "namesMap result" result "\<lambda>j. name (result ! j)", OF grp]
  have len: "length (renameAll keys (namesMap result) result) = length result"
    and nth: "\<And>j. j < length result \<Longrightarrow> renameAll keys (namesMap result) result ! j =
       (case (if name (result ! j) \<in> set keys then namesMap result (name (result ! j)) else None) of
          None \<Rightarrow> result ! j
        | Some idxs \<Rightarrow> if length idxs > 1
            then relabel (name (result ! j)) (posOf j idxs) (result ! j) else result ! j)"
    by blast+
  show "length (renameAll keys (namesMap result) result) = length result"
    by (rule len)
  have in_keys: "name (result ! j) \<in> set keys"
    using assms(2,3) by auto
  have m: "namesMap result (name (result ! j)) = Some (idxsOf result (name (result ! j)))"
    using in_keys assms(2) by (simp add: namesMap_eq)
  show "renameAll keys (namesMap result) result ! j =
        (if count_list (map name result) (name (result ! j)) > 1
         then relabel (name (result ! j)) (rank (map name result) j) (result ! j)
         else result ! j)"
    unfolding nth [OF assms(3)] rank_def
    using assms(3) by (simp add: in_keys m length_idxsOf posOf_idxsOf)
qed

lemma renameAll_namesMap_length:
  assumes "distinct keys" "set keys = name ` set result"
  shows "length (renameAll keys (namesMap result) result) = length result"
proof -
  have grp: "\<And>k idxs. k \<in> set keys \<Longrightarrow> namesMap result k = Some idxs \<Longrightarrow>
      distinct idxs \<and> set idxs = {j. j < length result \<and> name (result ! j) = k}"
    by (auto simp: namesMap_eq idxsOf_props split: if_splits)
  from renameAll_nth [OF assms(1), of "namesMap result" result "\<lambda>j. name (result ! j)", OF grp]
  show ?thesis by blast
qed

lemma relabel_eq: "relabel n i c = \<lparr>name = n @ ''.'' @ itoa (int i + 1), cmd = cmd c\<rparr>"
  by (cases c) (simp add: relabel_def)

lemma renameAll_order_irrelevant:
  assumes "distinct keys" "set keys = name ` set cs"
  shows "renameAll keys (namesMap cs) cs = numbered cs"
proof (rule nth_equalityI)
  show "length (renameAll keys (namesMap cs) cs) = length (numbered cs)"
    by (simp add: renameAll_namesMap_length [OF assms] numbered_def)
next
  fix i assume "i < length (renameAll keys (namesMap cs) cs)"
  then have i: "i < length cs"
    by (simp add: renameAll_namesMap_length [OF assms])
  show "renameAll keys (namesMap cs) cs ! i = numbered cs ! i"
    using i by (simp add: renameAll_namesMap_nth(2) [OF assms i] numbered_def numberedName_def
        relabel_eq)
qed

lemma renameDuplicates_numbered: "renameDuplicates cs = numbered cs"
  unfolding renameDuplicates_def by (rule renameAll_order_irrelevant) auto

section \<open>The result of parseCommands\<close>

lemma classify_eq:
  "classify cmds result npmCommands =
     (result @ map plainCommand (filter (\<lambda>c. \<not> isNpm c) cmds), npmCommands @ filter isNpm cmds)"
  by (induction cmds arbitrary: result npmCommands) (simp_all add: isNpm_def plainCommand_def)

lemma parseCommands_eq:
  "parseCommands uni rk fs root cmds =
     (if filter isNpm cmds = [] then Inr (numbered (map plainCommand cmds))
      else case fs root of
             Inl e \<Rightarrow> Inl (ErrReadPackageJSON e)
           | Inr b \<Rightarrow>
               (case parseNpmScripts uni rk b (filter isNpm cmds) of
                  Inl e \<Rightarrow> Inl e
                | Inr ss \<Rightarrow>
                    Inr (numbered (map plainCommand (filter (\<lambda>c. \<not> isNpm c) cmds) @ ss))))"
proof (cases "filter isNpm cmds = []")
  case True
  then have "filter (\<lambda>c. \<not> isNpm c) cmds = cmds"
    by (simp add: filter_empty_conv filter_id_conv)
  with True show ?thesis
    by (simp add: parseCommands_def classify_eq renameDuplicates_numbered)
next
  case False
  then show ?thesis
    by (simp add: parseCommands_def classify_eq renameDuplicates_numbered
        split: sum.splits)
qed

lemma takeWhile_trim_right:
  "takeWhile P (rev (dropWhile (\<lambda>x. \<not> P x) (rev s))) = takeWhile P s"
proof (induction s rule: rev_induct)
  case Nil
  then show ?case by simp
next
  case (snoc x s)
  show ?case
  proof (cases "P x")
    case True
    then show ?thesis by simp
  next
    case False
    then have "takeWhile P (s @ [x]) = takeWhile P s"
      by (simp add: takeWhile_append takeWhile_eq_all_conv [THEN iffD2])
    with False snoc show ?thesis by simp
  qed
qed

lemma find_Some_holds: "find P xs = Some x \<Longrightarrow> x \<in> set xs \<and> P x"
  by (induction xs) (auto split: if_splits)

lemma blank_in_spaceRunes: "'' '' \<in> set spaceRunes"
  by (simp add: spaceRunes_def)

lemma blanksOnly_sublist: "blanksOnly c \<Longrightarrow> sublist t c \<Longrightarrow> blanksOnly t"
  unfolding blanksOnly_def by (meson sublist_order.order_trans)

lemma blanksOnly_Cons: "blanksOnly (x # xs) \<Longrightarrow> blanksOnly xs"
  by (erule blanksOnly_sublist) (simp add: sublist_Cons_right)

lemma blanksOnly_snoc: "blanksOnly (xs @ [x]) \<Longrightarrow> blanksOnly xs"
  by (erule blanksOnly_sublist) simp

lemma leadingSpace_blanksOnly:
  assumes "blanksOnly (x # xs)"
  shows "leadingSpace (x # xs) = (if x = CHR '' '' then Some '' '' else None)"
proof (cases "leadingSpace (x # xs)")
  case None
  then have "\<not> prefix '' '' (x # xs)"
    using blank_in_spaceRunes by (auto simp: leadingSpace_def find_None_iff)
  with None show ?thesis by simp
next
  case (Some r)
  then have "r \<in> set spaceRunes" "prefix r (x # xs)"
    unfolding leadingSpace_def by (blast dest: find_Some_holds)+
  with assms have "r = '' ''" "prefix r (x # xs)"
    unfolding blanksOnly_def by auto
  with Some show ?thesis by simp
qed

lemma trailingSpace_blanksOnly:
  assumes "blanksOnly (xs @ [x])"
  shows "trailingSpace (xs @ [x]) = (if x = CHR '' '' then Some '' '' else None)"
proof (cases "trailingSpace (xs @ [x])")
  case None
  then have "\<not> suffix '' '' (xs @ [x])"
    using blank_in_spaceRunes by (auto simp: trailingSpace_def find_None_iff)
  with None show ?thesis by simp
next
  case (Some r)
  then have "r \<in> set spaceRunes" "suffix r (xs @ [x])"
    unfolding trailingSpace_def by (blast dest: find_Some_holds)+
  with assms have "r = '' ''" "suffix r (xs @ [x])"
    unfolding blanksOnly_def by auto
  with Some show ?thesis by simp
qed

lemma leadingSpace_Nil [simp]: "leadingSpace [] = None"
  by (simp add: leadingSpace_def spaceRunes_def)

lemma trailingSpace_Nil [simp]: "trailingSpace [] = None"
  by (simp add: trailingSpace_def spaceRunes_def)

lemma TrimLeft_blanksOnly:
  "blanksOnly c \<Longrightarrow> TrimLeft c = dropWhile (\<lambda>x. x = CHR '' '') c"
proof (induction c)
  case Nil
  show ?case by (subst TrimLeft.simps) simp
next
  case (Cons x xs)
  from Cons.IH [OF blanksOnly_Cons [OF Cons.prems]] leadingSpace_blanksOnly [OF Cons.prems]
  show ?case by (subst TrimLeft.simps) simp
qed

lemma TrimRight_blanksOnly:
  "blanksOnly c \<Longrightarrow> TrimRight c = rev (dropWhile (\<lambda>x. x = CHR '' '') (rev c))"
proof (induction c rule: rev_induct)
  case Nil
  show ?case by (subst TrimRight.simps) simp
next
  case (snoc x xs)
  from snoc.IH [OF blanksOnly_snoc [OF snoc.prems]] trailingSpace_blanksOnly [OF snoc.prems]
  show ?case by (subst TrimRight.simps) simp
qed

lemma untilSpace_blanksOnly:
  "blanksOnly c \<Longrightarrow> untilSpace c = takeWhile (\<lambda>x. x \<noteq> CHR '' '') c"
proof (induction c)
  case Nil
  show ?case by simp
next
  case (Cons x xs)
  from Cons.IH [OF blanksOnly_Cons [OF Cons.prems]] leadingSpace_blanksOnly [OF Cons.prems]
  show ?case by simp
qed

lemma firstToken_space_only:
  assumes "blanksOnly c"
  shows "Cut_before (TrimSpace c) CHR '' '' = spec_firstToken c"
proof -
  let ?s = "dropWhile (\<lambda>x. x = CHR '' '') c"
  have "suffix ?s c" by (rule suffix_dropWhile)
  then have s: "blanksOnly ?s" by (intro blanksOnly_sublist [OF assms]) simp
  have "Cut_before (TrimSpace c) CHR '' '' =
      takeWhile (\<lambda>x. x \<noteq> CHR '' '') (rev (dropWhile (\<lambda>x. \<not> x \<noteq> CHR '' '') (rev ?s)))"
    by (simp add: Cut_before_def TrimSpace_def TrimLeft_blanksOnly [OF assms]
        TrimRight_blanksOnly [OF s])
  also have "\<dots> = takeWhile (\<lambda>x. x \<noteq> CHR '' '') ?s" by (rule takeWhile_trim_right)
  also have "\<dots> = spec_firstToken c"
    by (simp add: spec_firstToken_def TrimLeft_blanksOnly [OF assms] untilSpace_blanksOnly [OF s])
  finally show ?thesis .
qed

lemma derivedName_space_only:
  assumes "blanksOnly c"
  shows "derivedName c = spec_displayName c"
proof -
  have "Base p \<noteq> []" for p by (simp add: Base_def Let_def)
  then show ?thesis
    by (simp add: derivedName_def filterCmdName_def spec_displayName_def
        firstToken_space_only [OF assms] Let_def)
qed

section \<open>Display names\<close>

lemma numbered_plain:
  "numbered (map plainCommand cmds) =
     map (\<lambda>i. \<lparr>name = numberedName (map derivedName cmds) i, cmd = cmds ! i\<rparr>) [0..<length cmds]"
proof -
  have e: "name \<circ> plainCommand = derivedName"
    by (simp add: fun_eq_iff plainCommand_def)
  show ?thesis
    by (simp add: numbered_def e plainCommand_def)
qed

lemma set_rangeScripts [simp]: "set (rangeScripts r tbl) = set tbl"
  by (simp add: rangeScripts_def)

lemma npmLoop_in_table:
  "npmLoop uni rk tbl i cs result missing = Inr (r, m)
   \<Longrightarrow> \<forall>s \<in> set result. (name s, cmd s) \<in> set tbl
   \<Longrightarrow> \<forall>s \<in> set r. (name s, cmd s) \<in> set tbl"
proof (induction cs arbitrary: i result missing)
  case Nil
  then show ?case by simp
next
  case (Cons c cs)
  let ?sn = "TrimPrefix c ''npm:''"
  let ?ms = "filter (\<lambda>(n, pcmd). wildcardMatch uni ?sn n) (rangeScripts (rk i) tbl)"
  show ?case
  proof (cases "map_of tbl ?sn")
    case (Some v)
    then have "(?sn, v) \<in> set tbl" by (rule map_of_SomeD)
    with Cons.prems(2)
    have "\<forall>s \<in> set (result @ [\<lparr>name = ?sn, cmd = v\<rparr>]). (name s, cmd s) \<in> set tbl" by simp
    moreover from Cons.prems(1) Some
    have "npmLoop uni rk tbl (Suc i) cs (result @ [\<lparr>name = ?sn, cmd = v\<rparr>]) missing = Inr (r, m)"
      by (simp add: Let_def)
    ultimately show ?thesis by (rule Cons.IH [rotated])
  next
    case None
    show ?thesis
    proof (cases "Contains ?sn CHR ''*''")
      case False
      with Cons.prems(1) None
      have "npmLoop uni rk tbl (Suc i) cs result (missing @ [?sn]) = Inr (r, m)"
        by (simp add: Let_def)
      then show ?thesis using Cons.prems(2) by (rule Cons.IH)
    next
      case True
      with Cons.prems(1) None
      have run: "npmLoop uni rk tbl (Suc i) cs
          (result @ map (\<lambda>(n, pcmd). \<lparr>name = n, cmd = pcmd\<rparr>) ?ms) missing = Inr (r, m)"
        by (simp add: Let_def split: if_splits)
      have "\<forall>s \<in> set (result @ map (\<lambda>(n, pcmd). \<lparr>name = n, cmd = pcmd\<rparr>) ?ms).
          (name s, cmd s) \<in> set tbl"
        using Cons.prems(2) by auto
      with run show ?thesis by (rule Cons.IH)
    qed
  qed
qed

lemma parseNpmScripts_in_table:
  assumes "parseNpmScripts uni rk b cs = Inr ss"
  shows "\<exists>tbl. b = Inr tbl \<and> (\<forall>s \<in> set ss. (name s, cmd s) \<in> set tbl)"
proof (cases b)
  case (Inl e)
  with assms show ?thesis by (simp add: parseNpmScripts_def)
next
  case (Inr tbl)
  with assms obtain m where "npmLoop uni rk tbl 0 cs [] [] = Inr (ss, m)"
    by (auto simp: parseNpmScripts_def split: sum.splits if_splits)
  from npmLoop_in_table [OF this] Inr show ?thesis by simp
qed

text \<open>
  C6 (as amended). For every list of commands in which the space character is the only
  white space: when no command is set aside as an \<open>npm:\<close> command, \<open>parseCommands\<close>
  succeeds and returns one entry per command, in the order supplied: the entry keeps the
  command text, and its name is the base name of the first white-space-delimited token
  (\<open>cmd\<close> when that is empty, \<open>.\<close> or \<open>/\<close>), with the suffixes \<open>.1\<close>, \<open>.2\<close>, ... given in
  the order supplied to the names that occur more than once. In general, when
  \<open>parseCommands\<close> succeeds, the list it returns is made of the commands that are not
  \<open>npm:\<close> commands, in the order supplied and under these names, followed by entries that
  are scripts of the script table, each under the name of the script and with the text of
  the script; the suffixes are given in the order of that list.
\<close>
theorem parseCommands_display_names:
  assumes "\<forall>c \<in> set cmds. blanksOnly c"
  shows "(filter isNpm cmds = [] \<longrightarrow>
            parseCommands uni rk fs root cmds =
              Inr (map (\<lambda>i. \<lparr>name = numberedName (map spec_displayName cmds) i, cmd = cmds ! i\<rparr>)
                     [0..<length cmds]))
       \<and> (\<forall>result. parseCommands uni rk fs root cmds = Inr result \<longrightarrow>
            (\<exists>ss. result =
                    numbered (map (\<lambda>c. \<lparr>name = spec_displayName c, cmd = c\<rparr>)
                                (filter (\<lambda>c. \<not> isNpm c) cmds) @ ss)
                 \<and> (filter isNpm cmds = [] \<and> ss = []
                    \<or> (\<exists>tbl. fs root = Inr (Inr tbl)
                           \<and> (\<forall>s \<in> set ss. (name s, cmd s) \<in> set tbl)))))"
proof (intro conjI allI impI)
  assume none: "filter isNpm cmds = []"
  have same: "map derivedName cmds = map spec_displayName cmds"
    using assms by (simp add: derivedName_space_only)
  show "parseCommands uni rk fs root cmds =
      Inr (map (\<lambda>i. \<lparr>name = numberedName (map spec_displayName cmds) i, cmd = cmds ! i\<rparr>)
             [0..<length cmds])"
    unfolding parseCommands_eq numbered_plain same using none by simp
next
  fix result
  assume ok: "parseCommands uni rk fs root cmds = Inr result"
  let ?plain = "filter (\<lambda>c. \<not> isNpm c) cmds"
  have plain: "map plainCommand ?plain = map (\<lambda>c. \<lparr>name = spec_displayName c, cmd = c\<rparr>) ?plain"
    using assms by (simp add: plainCommand_def derivedName_space_only)
  show "\<exists>ss. result = numbered (map (\<lambda>c. \<lparr>name = spec_displayName c, cmd = c\<rparr>) ?plain @ ss)
      \<and> (filter isNpm cmds = [] \<and> ss = []
         \<or> (\<exists>tbl. fs root = Inr (Inr tbl) \<and> (\<forall>s \<in> set ss. (name s, cmd s) \<in> set tbl)))"
  proof (cases "filter isNpm cmds = []")
    case True
    then have "?plain = cmds" by (simp add: filter_empty_conv filter_id_conv)
    from ok True have "result = numbered (map plainCommand cmds)"
      by (simp add: parseCommands_eq)
    then have "result = numbered (map plainCommand ?plain @ [])"
      unfolding \<open>?plain = cmds\<close> by simp
    then have "result = numbered (map (\<lambda>c. \<lparr>name = spec_displayName c, cmd = c\<rparr>) ?plain @ [])"
      unfolding plain .
    with True show ?thesis by blast
  next
    case False
    with ok obtain b ss where b: "fs root = Inr b"
      and ss: "parseNpmScripts uni rk b (filter isNpm cmds) = Inr ss"
      and r: "result = numbered (map plainCommand ?plain @ ss)"
      by (auto simp: parseCommands_eq split: sum.splits)
    from parseNpmScripts_in_table [OF ss] b
    obtain tbl where "fs root = Inr (Inr tbl)" "\<forall>s \<in> set ss. (name s, cmd s) \<in> set tbl"
      by auto
    moreover from r have "result = numbered (map (\<lambda>c. \<lparr>name = spec_displayName c, cmd = c\<rparr>) ?plain @ ss)"
      unfolding plain .
    ultimately show ?thesis by blast
  qed
qed

lemma upt3: "[0..<3] = [0, 1, 2]"
  by (simp add: upt_rec)

lemmas name_eval = isNpm_def derivedName_def filterCmdName_def Base_def Cut_before_def
  TrimSpace_def TrimLeft.simps TrimRight.simps leadingSpace_def trailingSpace_def spaceRunes_def
  suffix_to_prefix HasPrefix_def TrimPrefix_def plainCommand_def

lemmas spec_eval = spec_displayName_def spec_firstToken_def TrimLeft.simps leadingSpace_def
  spaceRunes_def Base_def

text \<open>Three commands, two of which derive the name \<open>echo\<close>.\<close>
theorem parseCommands_display_names_witness:
  "parseCommands (\<lambda>s t. False) (\<lambda>i n. 0) (\<lambda>r. Inl ''no such file'') ''/w''
       [''echo hello'', ''ls -l'', ''  /bin/echo world''] =
     Inr [\<lparr>name = ''echo.1'', cmd = ''echo hello''\<rparr>,
          \<lparr>name = ''ls'', cmd = ''ls -l''\<rparr>,
          \<lparr>name = ''echo.2'', cmd = ''  /bin/echo world''\<rparr>]"
proof -
  have b: "\<forall>c \<in> set [''echo hello'', ''ls -l'', ''  /bin/echo world'']. blanksOnly c"
    by (simp add: blanksOnly_def spaceRunes_def sublist_code)
  have n: "filter isNpm [''echo hello'', ''ls -l'', ''  /bin/echo world''] = []"
    by (simp add: name_eval)
  have s: "map spec_displayName [''echo hello'', ''ls -l'', ''  /bin/echo world'']
      = [''echo'', ''ls'', ''echo'']"
    by (simp add: spec_eval)
  from parseCommands_display_names [OF b, THEN conjunct1, rule_format, OF n,
      of "\<lambda>s t. False" "\<lambda>i n. 0" "\<lambda>r. Inl ''no such file''" "''/w''"]
  show ?thesis
    unfolding s by (simp add: upt3 numberedName_def rank_def itoa_def digits.simps)
qed

text \<open>
  C6 as first stated fails: the command \<open>npm:dev\<close> is displayed under the name of the script
  it resolves to, \<open>dev\<close>, and not under the base name of its first token, \<open>npm:dev\<close>.
\<close>
theorem parseCommands_display_names_counterexample:
  "parseCommands (\<lambda>s t. False) (\<lambda>i n. 0) (\<lambda>r. Inr (Inr [(''dev'', ''vite'')])) ''/'' [''npm:dev'']
     = Inr [\<lparr>name = ''dev'', cmd = ''vite''\<rparr>]
   \<and> spec_displayName ''npm:dev'' = ''npm:dev''"
proof -
  have i: "isNpm ''npm:dev''"
    by (simp add: name_eval)
  have p: "parseNpmScripts (\<lambda>s t. False) (\<lambda>i n. 0) (Inr [(''dev'', ''vite'')]) [''npm:dev'']
      = Inr [\<lparr>name = ''dev'', cmd = ''vite''\<rparr>]"
    by (simp add: parseNpmScripts_def TrimPrefix_def HasPrefix_def)
  have s: "spec_displayName ''npm:dev'' = ''npm:dev''"
    by (simp add: spec_eval)
  show ?thesis
    unfolding parseCommands_eq s by (simp add: i p numbered_def numberedName_def)
qed

section \<open>The processes built by New\<close>

lemma addProcs_silent [simp]: "pm_silent (addProcs i cs root env pm) = pm_silent pm"
  by (induction cs arbitrary: i pm) (simp_all add: newProcess_def Let_def)

lemma addProcs_procs:
  "pm_procs (addProcs i cs root env pm) =
     pm_procs pm @ map (\<lambda>(j, c). mkProc root env (pm_silent pm) j c) (enumerate i cs)"
  by (induction cs arbitrary: i pm) (simp_all add: newProcess_def mkProc_def Let_def)

lemma Connect_props:
  "printProcName (Connect m p) = printProcName m"
  "maxNameLength m \<le> maxNameLength (Connect m p)"
  "length (Name p) \<le> maxNameLength (Connect m p)"
  by (simp_all add: Connect_def Let_def)

lemma addProcs_Cons:
  "addProcs i (c # cs) root env pm =
     addProcs (Suc i) cs root env
       (pm\<lparr>pm_output := Connect (pm_output pm) (mkProc root env (pm_silent pm) i c),
           pm_procs := pm_procs pm @ [mkProc root env (pm_silent pm) i c]\<rparr>)"
  by (simp add: newProcess_def mkProc_def Let_def)

lemma addProcs_output:
  "printProcName (pm_output (addProcs i cs root env pm)) = printProcName (pm_output pm) \<and>
   maxNameLength (pm_output pm) \<le> maxNameLength (pm_output (addProcs i cs root env pm)) \<and>
   (\<forall>c \<in> set cs. length (name c) \<le> maxNameLength (pm_output (addProcs i cs root env pm)))"
proof (induction cs arbitrary: i pm)
  case Nil
  show ?case by simp
next
  case (Cons c cs)
  let ?p = "mkProc root env (pm_silent pm) i c"
  let ?pm1 = "pm\<lparr>pm_output := Connect (pm_output pm) ?p, pm_procs := pm_procs pm @ [?p]\<rparr>"
  have n: "Name ?p = name c" by (simp add: mkProc_def)
  from Cons.IH [of "Suc i" ?pm1] Connect_props [where m = "pm_output pm" and p = ?p]
  show ?case
    unfolding addProcs_Cons n by auto
qed

lemma mkProcs_fields:
  "map Name (map (\<lambda>(j, c). mkProc root env sil j c) (enumerate i cs)) = map name cs"
  "map Cmd (map (\<lambda>(j, c). mkProc root env sil j c) (enumerate i cs)) = map cmd cs"
  "map Color (map (\<lambda>(j, c). mkProc root env sil j c) (enumerate i cs)) =
     map (\<lambda>j. colors ! (j mod length colors)) [i..<i + length cs]"
  by (induction cs arbitrary: i) (simp_all add: mkProc_def upt_rec)

lemma New_Inr:
  assumes "New S cfg = Inr pm"
  obtains root cs where "Abs S (Root cfg) = Inr root"
    "parseCommands (EqualFoldUnicode S) (RangeOrder S) (ReadPackageJSON S) root (Cmds cfg) = Inr cs"
    "printProcName (pm_output pm)"
    "\<forall>p \<in> set (pm_procs pm). length (Name p) \<le> maxNameLength (pm_output pm)"
    "map Name (pm_procs pm) = map name cs"
    "map Cmd (pm_procs pm) = map cmd cs"
    "map Color (pm_procs pm) = map (\<lambda>i. colors ! (i mod length colors)) [0..<length cs]"
    "length (pm_procs pm) = length cs"
proof -
  from assms obtain root where root: "Abs S (Root cfg) = Inr root"
    by (auto simp: New_def split: sum.splits)
  from assms root obtain cs where cs: "parseCommands (EqualFoldUnicode S) (RangeOrder S) (ReadPackageJSON S) root (Cmds cfg) = Inr cs"
    by (auto simp: New_def Let_def split: sum.splits)
  define pm0 where "pm0 = \<lparr>pm_output = \<lparr>maxNameLength = 0, pipes = Map.empty, printProcName = True\<rparr>,
     pm_procs = [], pm_timeout = wrap64 (Timeout cfg * 1000000000), pm_silent = Silent cfg\<rparr>"
  from assms root cs obtain env where pm: "pm = addProcs 0 cs root env pm0"
    by (auto simp: New_def Let_def pm0_def split: sum.splits)
  have procs: "pm_procs pm = map (\<lambda>(j, c). mkProc root env (Silent cfg) j c) (enumerate 0 cs)"
    by (simp add: pm addProcs_procs pm0_def)
  have 1: "printProcName (pm_output pm)"
    by (simp add: pm addProcs_output pm0_def)
  have 2: "\<forall>p \<in> set (pm_procs pm). length (Name p) \<le> maxNameLength (pm_output pm)"
    using addProcs_output [of 0 cs root env pm0]
    unfolding procs by (auto simp: pm [symmetric] mkProc_def in_set_enumerate_eq)
  have 3: "map Name (pm_procs pm) = map name cs"
    unfolding procs by (rule mkProcs_fields)
  have 4: "map Cmd (pm_procs pm) = map cmd cs"
    unfolding procs by (rule mkProcs_fields)
  have 5: "map Color (pm_procs pm) = map (\<lambda>i. colors ! (i mod length colors)) [0..<length cs]"
    unfolding procs using mkProcs_fields(3) [of root env "Silent cfg" 0 cs] by simp
  have 6: "length (pm_procs pm) = length cs" by (simp add: procs)
  from root cs 1 2 3 4 5 6 show ?thesis by (rule that)
qed

section \<open>Commands resolved from npm scripts\<close>

lemma numbered_fields:
  "map cmd (numbered cs) = map cmd cs"
  "map name (numbered cs) = map (numberedName (map name cs)) [0..<length cs]"
  "length (numbered cs) = length cs"
  by (simp_all add: numbered_def comp_def) (rule nth_equalityI; simp)

text \<open>
  C9. Whenever \<open>New\<close> succeeds, the processes of the manager are, in this order, the plain
  commands in the order supplied followed by the commands resolved from the \<open>npm:\<close>
  commands, whatever the positions of the \<open>npm:\<close> commands in the input; and the names
  (with their duplicate suffixes) and the colours are assigned by position in that
  reordered sequence.
\<close>
theorem New_npm_after_plain:
  assumes "New S cfg = Inr pm"
  shows "\<exists>root ss.
      Abs S (Root cfg) = Inr root \<and>
      (filter isNpm (Cmds cfg) = [] \<and> ss = [] \<or>
       (\<exists>b. ReadPackageJSON S root = Inr b \<and>
            parseNpmScripts (EqualFoldUnicode S) (RangeOrder S) b (filter isNpm (Cmds cfg)) = Inr ss)) \<and>
      parseCommands (EqualFoldUnicode S) (RangeOrder S) (ReadPackageJSON S) root (Cmds cfg) =
        Inr (numbered (map plainCommand (filter (\<lambda>c. \<not> isNpm c) (Cmds cfg)) @ ss)) \<and>
      map Cmd (pm_procs pm) = filter (\<lambda>c. \<not> isNpm c) (Cmds cfg) @ map cmd ss \<and>
      map Name (pm_procs pm) =
        map (numberedName (map derivedName (filter (\<lambda>c. \<not> isNpm c) (Cmds cfg)) @ map name ss))
          [0..<length (pm_procs pm)] \<and>
      map Color (pm_procs pm) =
        map (\<lambda>i. colors ! (i mod length colors)) [0..<length (pm_procs pm)]"
proof -
  let ?plain = "filter (\<lambda>c. \<not> isNpm c) (Cmds cfg)"
  from assms obtain root cs where root: "Abs S (Root cfg) = Inr root"
    and cs: "parseCommands (EqualFoldUnicode S) (RangeOrder S) (ReadPackageJSON S) root (Cmds cfg) = Inr cs"
    and nm: "map Name (pm_procs pm) = map name cs"
    and cm: "map Cmd (pm_procs pm) = map cmd cs"
    and co: "map Color (pm_procs pm) = map (\<lambda>i. colors ! (i mod length colors)) [0..<length cs]"
    and len: "length (pm_procs pm) = length cs"
    by (rule New_Inr)
  have "\<exists>ss. (filter isNpm (Cmds cfg) = [] \<and> ss = [] \<or>
       (\<exists>b. ReadPackageJSON S root = Inr b \<and>
            parseNpmScripts (EqualFoldUnicode S) (RangeOrder S) b (filter isNpm (Cmds cfg)) = Inr ss)) \<and>
       cs = numbered (map plainCommand ?plain @ ss)"
  proof (cases "filter isNpm (Cmds cfg) = []")
    case True
    then have "?plain = Cmds cfg" by (simp add: filter_empty_conv filter_id_conv)
    with cs True have "cs = numbered (map plainCommand ?plain @ [])"
      by (simp add: parseCommands_eq)
    with True show ?thesis by blast
  next
    case False
    with cs show ?thesis by (auto simp: parseCommands_eq split: sum.splits)
  qed
  then obtain ss where ss: "filter isNpm (Cmds cfg) = [] \<and> ss = [] \<or>
       (\<exists>b. ReadPackageJSON S root = Inr b \<and>
            parseNpmScripts (EqualFoldUnicode S) (RangeOrder S) b (filter isNpm (Cmds cfg)) = Inr ss)"
    and eq: "cs = numbered (map plainCommand ?plain @ ss)"
    by blast
  have names: "map name (map plainCommand ?plain @ ss) = map derivedName ?plain @ map name ss"
    by (simp add: plainCommand_def comp_def)
  have cmds: "map cmd (map plainCommand ?plain @ ss) = ?plain @ map cmd ss"
    by (simp add: plainCommand_def comp_def)
  have "map Cmd (pm_procs pm) = ?plain @ map cmd ss"
    unfolding cm eq numbered_fields(1) cmds ..
  moreover have "map Name (pm_procs pm) =
      map (numberedName (map derivedName ?plain @ map name ss)) [0..<length (pm_procs pm)]"
    unfolding nm len unfolding eq numbered_fields names ..
  moreover have "map Color (pm_procs pm) =
      map (\<lambda>i. colors ! (i mod length colors)) [0..<length (pm_procs pm)]"
    unfolding co len ..
  ultimately show ?thesis
    using root ss cs eq by blast
qed

text \<open>
  An \<open>npm:\<close> command supplied first comes last; the plain command \<open>dev\<close>, supplied after
  it, is numbered \<open>dev.1\<close> and the resolved script \<open>dev.2\<close>.
\<close>
theorem New_npm_after_plain_witness:
  "\<exists>pm. New \<lparr>Abs = (\<lambda>r. Inr r), Environ = [], Join = (\<lambda>a b. a @ ''/'' @ b),
             StatIsDir = (\<lambda>p. False),
             ReadPackageJSON = (\<lambda>r. Inr (Inr [(''dev'', ''vite'')])),
             EqualFoldUnicode = (\<lambda>s t. False), RangeOrder = (\<lambda>i n. 0)\<rparr>
            \<lparr>Cmds = [''npm:dev'', ''dev'', ''echo hi''], Root = ''/w'', Timeout = 0,
             Silent = False\<rparr> = Inr pm
     \<and> map Cmd (pm_procs pm) = [''dev'', ''echo hi'', ''vite'']
     \<and> map Name (pm_procs pm) = [''dev.1'', ''echo'', ''dev.2'']
     \<and> map Color (pm_procs pm) = [2, 3, 4]"
proof -
  let ?S = "\<lparr>Abs = (\<lambda>r. Inr r), Environ = [], Join = (\<lambda>a b. a @ ''/'' @ b),
             StatIsDir = (\<lambda>p. False),
             ReadPackageJSON = (\<lambda>r. Inr (Inr [(''dev'', ''vite'')])),
             EqualFoldUnicode = (\<lambda>s t. False), RangeOrder = (\<lambda>i n. 0)\<rparr>"
  let ?cfg = "\<lparr>Cmds = [''npm:dev'', ''dev'', ''echo hi''], Root = ''/w'', Timeout = 0,
             Silent = False\<rparr>"
  have i: "isNpm ''npm:dev''" "\<not> isNpm ''dev''" "\<not> isNpm ''echo hi''"
    by (simp_all add: name_eval)
  have npm: "filter isNpm (Cmds ?cfg) = [''npm:dev'']"
    and plain: "filter (\<lambda>c. \<not> isNpm c) (Cmds ?cfg) = [''dev'', ''echo hi'']"
    by (simp_all add: i)
  have scripts: "parseNpmScripts (\<lambda>s t. False) (\<lambda>i n. 0) (Inr [(''dev'', ''vite'')]) [''npm:dev''] =
      Inr [\<lparr>name = ''dev'', cmd = ''vite''\<rparr>]"
    by (simp add: parseNpmScripts_def TrimPrefix_def HasPrefix_def)
  have d: "map derivedName [''dev'', ''echo hi''] = [''dev'', ''echo'']"
    by (simp add: name_eval)
  obtain pm where pm: "New ?S ?cfg = Inr pm"
    by (simp add: New_def parseCommands_eq npm [simplified] scripts)
  from New_npm_after_plain [OF pm] obtain root ss where
    ss: "filter isNpm (Cmds ?cfg) = [] \<and> ss = [] \<or>
       (\<exists>b. ReadPackageJSON ?S root = Inr b \<and>
            parseNpmScripts (EqualFoldUnicode ?S) (RangeOrder ?S) b (filter isNpm (Cmds ?cfg)) = Inr ss)"
    and c: "map Cmd (pm_procs pm) = filter (\<lambda>c. \<not> isNpm c) (Cmds ?cfg) @ map cmd ss"
    and n: "map Name (pm_procs pm) =
        map (numberedName (map derivedName (filter (\<lambda>c. \<not> isNpm c) (Cmds ?cfg)) @ map name ss))
          [0..<length (pm_procs pm)]"
    and k: "map Color (pm_procs pm) =
        map (\<lambda>i. colors ! (i mod length colors)) [0..<length (pm_procs pm)]"
    by blast
  from ss have ss_eq: "ss = [\<lparr>name = ''dev'', cmd = ''vite''\<rparr>]"
    unfolding npm by (simp add: scripts)
  have c': "map Cmd (pm_procs pm) = [''dev'', ''echo hi'', ''vite'']"
    unfolding c plain ss_eq by simp
  then have "length (map Cmd (pm_procs pm)) = 3" by simp
  then have len: "length (pm_procs pm) = 3" by simp
  have n': "map Name (pm_procs pm) = [''dev.1'', ''echo'', ''dev.2'']"
    unfolding n plain ss_eq len d
    by (simp add: upt3 numberedName_def rank_def itoa_def digits.simps)
  have k': "map Color (pm_procs pm) = [2, 3, 4]"
    unfolding k len by (simp add: upt3 colors_def)
  show ?thesis
    by (rule exI [of _ pm]) (intro conjI pm c' n' k')
qed

section \<open>The lines handed to the callback\<close>

lemma chomp_append: "b \<noteq> [] \<Longrightarrow> chomp (a @ b) = a @ chomp b"
  by (simp add: chomp_def butlast_append)

lemma takeWhile_upto_sep: "c \<notin> set l \<Longrightarrow> takeWhile (\<lambda>x. x \<noteq> c) (l @ c # r) = l"
  by (induction l) auto

lemma ReadLine_short:
  assumes "LF \<notin> set l" "length l < defaultBufSize"
  shows "ReadLine (rd\<lparr>unread := l @ LF # rest\<rparr>) = ((chomp l, False, None), rd\<lparr>unread := rest\<rparr>)"
proof -
  let ?w = "take defaultBufSize (l @ LF # rest)"
  have w: "?w = l @ take (defaultBufSize - length l) (LF # rest)"
    using assms(2) by simp
  have "defaultBufSize - length l > 0" using assms(2) by simp
  then obtain k where k: "defaultBufSize - length l = Suc k" by (cases "defaultBufSize - length l") auto
  have w2: "?w = l @ LF # take k rest" unfolding w k by simp
  have tw: "takeWhile (\<lambda>c. c \<noteq> LF) ?w = l"
    unfolding w2 using assms(1) by (rule takeWhile_upto_sep)
  have rs: "ReadSlice (rd\<lparr>unread := l @ LF # rest\<rparr>) = (l @ [LF], None, rd\<lparr>unread := rest\<rparr>)"
  proof -
    have in_w: "LF \<in> set ?w" by (subst w2) simp
    show ?thesis
      unfolding ReadSlice_def Let_def using in_w tw by simp
  qed
  have nth: "l \<noteq> [] \<Longrightarrow> (l @ [LF]) ! (length l - Suc 0) = last l"
    by (simp add: nth_append last_conv_nth)
  show ?thesis
    unfolding ReadLine_def rs
    by (cases "l = []") (auto simp: chomp_def butlast_conv_take nth)
qed

lemma bufsize_pos: "0 < defaultBufSize" "Suc (defaultBufSize - Suc 0) = defaultBufSize"
  by (simp_all add: defaultBufSize_def)

lemma ReadLine_full:
  assumes "LF \<notin> set (take defaultBufSize u)" "length u > defaultBufSize"
  shows "ReadLine (rd\<lparr>unread := u\<rparr>) =
    (if u ! (defaultBufSize - 1) = CR
     then ((take (defaultBufSize - 1) u, True, None), rd\<lparr>unread := drop (defaultBufSize - 1) u\<rparr>)
     else ((take defaultBufSize u, True, None), rd\<lparr>unread := drop defaultBufSize u\<rparr>))"
proof -
  have rs: "ReadSlice (rd\<lparr>unread := u\<rparr>) =
      (take defaultBufSize u, Some ErrBufferFull, rd\<lparr>unread := drop defaultBufSize u\<rparr>)"
    unfolding ReadSlice_def Let_def using assms by simp
  have len: "length (take defaultBufSize u) = defaultBufSize"
    using assms(2) by simp
  have ne: "take defaultBufSize u \<noteq> []"
    using len bufsize_pos(1) by (metis length_0_conv less_numeral_extra(3))
  have lst: "last (take defaultBufSize u) = u ! (defaultBufSize - 1)"
    using ne len assms(2) bufsize_pos by (simp add: last_conv_nth)
  have bl: "butlast (take defaultBufSize u) = take (defaultBufSize - 1) u"
    using assms(2) by (simp add: butlast_take)
  have dr: "u ! (defaultBufSize - 1) # drop defaultBufSize u = drop (defaultBufSize - 1) u"
    using Cons_nth_drop_Suc [of "defaultBufSize - 1" u] assms(2) bufsize_pos by simp
  show ?thesis
    unfolding ReadLine_def rs using len lst bl dr bufsize_pos(1)
    by (auto simp del: length_take)
qed

lemma bufsize_gt1: "1 < defaultBufSize"
  by (simp add: defaultBufSize_def)

lemma scanLoop_line:
  "LF \<notin> set l \<Longrightarrow>
   scanLoop cb (rd\<lparr>unread := l @ LF # rest\<rparr>) buf s =
     (case cb s (buf @ chomp l) of
        (ok, s1) \<Rightarrow> if \<not> ok then (None, s1) else scanLoop cb (rd\<lparr>unread := rest\<rparr>) [] s1)"
proof (induction l arbitrary: buf rule: length_induct)
  case (1 l)
  let ?N = defaultBufSize
  let ?u = "l @ LF # rest"
  show ?case
  proof (cases "length l < ?N")
    case True
    show ?thesis
      by (subst scanLoop.simps) (simp add: ReadLine_short [OF "1.prems" True])
  next
    case False
    then have long: "?N \<le> length l" by simp
    have tk: "take ?N ?u = take ?N l" "take (?N - 1) ?u = take (?N - 1) l"
      using long by simp_all
    have dr: "drop ?N ?u = drop ?N l @ LF # rest" "drop (?N - 1) ?u = drop (?N - 1) l @ LF # rest"
      using long by simp_all
    have "?N - 1 < length l" using long bufsize_pos(1) by arith
    then have nth: "?u ! (?N - 1) = l ! (?N - 1)"
      by (simp add: nth_append)
    have noLF: "LF \<notin> set (take ?N ?u)"
      unfolding tk using "1.prems" by (meson in_set_takeD)
    have len: "?N < length ?u" using long by simp
    note RL = ReadLine_full [OF noLF len, of rd, unfolded tk dr nth]
    show ?thesis
    proof (cases "l ! (?N - 1) = CR")
      case True
      let ?l' = "drop (?N - 1) l"
      have shorter: "length ?l' < length l" using long bufsize_gt1 by simp
      have noLF': "LF \<notin> set ?l'" using "1.prems" by (meson in_set_dropD)
      have ne: "?l' \<noteq> []" using long bufsize_pos(1) by simp
      have ch: "take (?N - 1) l @ chomp ?l' = chomp l"
        using chomp_append [OF ne, of "take (?N - 1) l"] by simp
      have IH: "scanLoop cb (rd\<lparr>unread := ?l' @ LF # rest\<rparr>) (buf @ take (?N - 1) l) s =
          (case cb s ((buf @ take (?N - 1) l) @ chomp ?l') of
             (ok, s1) \<Rightarrow> if \<not> ok then (None, s1) else scanLoop cb (rd\<lparr>unread := rest\<rparr>) [] s1)"
        using "1.IH" shorter noLF' by blast
      have step: "scanLoop cb (rd\<lparr>unread := ?u\<rparr>) buf s =
          scanLoop cb (rd\<lparr>unread := ?l' @ LF # rest\<rparr>) (buf @ take (?N - 1) l) s"
        using True by (subst scanLoop.simps) (simp add: RL)
      show ?thesis
        unfolding step IH using ch by simp
    next
      case False
      let ?l' = "drop ?N l"
      have shorter: "length ?l' < length l" using long bufsize_pos(1) by simp
      have noLF': "LF \<notin> set ?l'" using "1.prems" by (meson in_set_dropD)
      have ch: "take ?N l @ chomp ?l' = chomp l"
      proof (cases "?l' = []")
        case True
        then have eq: "length l = ?N" using long by simp
        then have ne: "l \<noteq> []" using bufsize_pos(1) by auto
        have "last l = l ! (?N - 1)"
          using last_conv_nth [OF ne] eq by simp
        note this ne
        with False True show ?thesis by (simp add: chomp_def)
      next
        case False
        from chomp_append [OF False, of "take ?N l"] show ?thesis by simp
      qed
      have IH: "scanLoop cb (rd\<lparr>unread := ?l' @ LF # rest\<rparr>) (buf @ take ?N l) s =
          (case cb s ((buf @ take ?N l) @ chomp ?l') of
             (ok, s1) \<Rightarrow> if \<not> ok then (None, s1) else scanLoop cb (rd\<lparr>unread := rest\<rparr>) [] s1)"
        using "1.IH" shorter noLF' by blast
      have step: "scanLoop cb (rd\<lparr>unread := ?u\<rparr>) buf s =
          scanLoop cb (rd\<lparr>unread := ?l' @ LF # rest\<rparr>) (buf @ take ?N l) s"
        using False by (subst scanLoop.simps) (simp add: RL)
      show ?thesis
        unfolding step IH using ch by simp
    qed
  qed
qed

lemma scanLoop_lines:
  "\<forall>l \<in> set ls. LF \<notin> set l \<Longrightarrow>
   scanLoop cb (rd\<lparr>unread := terminated ls @ t\<rparr>) [] s =
     (case feed cb s (map chomp ls) of
        (ok, s1) \<Rightarrow> if ok then scanLoop cb (rd\<lparr>unread := t\<rparr>) [] s1 else (None, s1))"
proof (induction ls arbitrary: s)
  case Nil
  then show ?case by (simp add: terminated_def)
next
  case (Cons l ls)
  have split: "terminated (l # ls) @ t = l @ LF # (terminated ls @ t)"
    by (simp add: terminated_def)
  have l: "LF \<notin> set l" and ls: "\<forall>l \<in> set ls. LF \<notin> set l"
    using Cons.prems by auto
  show ?case
    unfolding split scanLoop_line [OF l]
    by (simp add: Cons.IH [OF ls] split: prod.splits)
qed

lemma scanLoop_end:
  "scanLoop cb (rd\<lparr>unread := []\<rparr>) buf s = (errResult (final rd), s)"
  by (subst scanLoop.simps)
     (simp add: ReadLine_def ReadSlice_def bufsize_pos(1) errResult_def)

lemma scanLoop_tail:
  assumes "t \<noteq> []" "LF \<notin> set t" "length t < defaultBufSize"
  shows "scanLoop cb (rd\<lparr>unread := t\<rparr>) buf s =
     (case cb s (buf @ t) of (ok, s1) \<Rightarrow> if ok then (errResult (final rd), s1) else (None, s1))"
proof -
  have nl: "LF \<notin> set (take defaultBufSize t)" using assms(2) by (meson in_set_takeD)
  have "ReadSlice (rd\<lparr>unread := t\<rparr>) = (t, Some (SrcError (final rd)), rd\<lparr>unread := []\<rparr>)"
    unfolding ReadSlice_def Let_def using nl assms(3) by simp
  moreover have "last t \<noteq> LF" using assms(1,2) last_in_set by metis
  ultimately have "ReadLine (rd\<lparr>unread := t\<rparr>) = ((t, False, None), rd\<lparr>unread := []\<rparr>)"
    using assms(1) by (simp add: ReadLine_def)
  then show ?thesis
    by (subst scanLoop.simps) (simp add: scanLoop_end split: prod.splits)
qed

lemma scanLines_characterisation:
  assumes "\<forall>l \<in> set ls. LF \<notin> set l" "LF \<notin> set t" "length t < defaultBufSize"
  shows "scanLines \<lparr>unread = terminated ls @ t, final = e, errWithData = d\<rparr> cb s =
     finish e (feed cb s (map chomp ls @ (if t = [] then [] else [t])))"
proof -
  let ?rd = "\<lparr>unread = [], final = e, errWithData = d\<rparr>"
  have rd: "\<lparr>unread = terminated ls @ t, final = e, errWithData = d\<rparr>
      = ?rd\<lparr>unread := terminated ls @ t\<rparr>" by simp
  have feed_app: "feed cb s (xs @ ys) =
      (case feed cb s xs of (ok, s1) \<Rightarrow> if ok then feed cb s1 ys else (False, s1))" for xs ys s
    by (induction xs arbitrary: s) (auto split: prod.splits)
  show ?thesis
  proof (cases "t = []")
    case True
    show ?thesis
      unfolding scanLines_def rd scanLoop_lines [OF assms(1)]
      by (simp add: True scanLoop_end [of cb ?rd, simplified] finish_def split: prod.splits)
  next
    case False
    show ?thesis
      unfolding scanLines_def rd scanLoop_lines [OF assms(1)]
      by (simp add: False scanLoop_tail [OF False assms(2,3), of cb ?rd, simplified]
          feed_app finish_def split: prod.splits)
  qed
qed

lemma feed_recording:
  "feed (recording g) calls ls =
     (list_all g ls, calls @ takeWhile g ls @ take 1 (dropWhile g ls))"
  by (induction ls arbitrary: calls) (simp_all add: recording_def)

text \<open>
  C4 (as amended). On a stream of complete lines, each ended by a line feed, \<open>scanLines\<close>
  calls the callback once for each line, in order, with the line without its line feed and
  without a carriage return before it, however long the line is; it stops at the first
  call that returns false and then returns nil; otherwise it returns nil when the stream
  ends with \<^verbatim>\<open>io.EOF\<close> or \<^verbatim>\<open>io.ErrClosedPipe\<close>, and the error of the stream in every other
  case, the error of a read on a closed file among them. The second part states the same
  for the callback that records its arguments and goes on while \<open>g\<close> holds.
\<close>
theorem scanLines_complete_lines:
  assumes "\<forall>l \<in> set ls. LF \<notin> set l"
  shows "scanLines \<lparr>unread = terminated ls, final = e, errWithData = d\<rparr> callback s
           = finish e (feed callback s (map chomp ls))
       \<and> scanLines \<lparr>unread = terminated ls, final = e, errWithData = d\<rparr> (recording g) []
           = (if list_all g (map chomp ls)
              then (if e \<noteq> EOF \<and> e \<noteq> ErrClosedPipe then Some e else None)
              else None,
              takeWhile g (map chomp ls) @ take 1 (dropWhile g (map chomp ls)))"
proof -
  have *: "scanLines \<lparr>unread = terminated ls, final = e, errWithData = d\<rparr> cb s0
      = finish e (feed cb s0 (map chomp ls))" for cb :: "'b \<Rightarrow> string \<Rightarrow> bool \<times> 'b" and s0
    using scanLines_characterisation [OF assms, of "[]" e d cb s0]
    by (simp add: bufsize_pos)
  show ?thesis
    by (simp add: * feed_recording finish_def errResult_def)
qed

text \<open>
  Four lines with a callback that stops at the empty third line; two lines followed by a
  read error; two lines followed by the end of the stream.
\<close>
theorem scanLines_complete_lines_witness:
  "scanLines \<lparr>unread = ''ab'' @ [CR, LF] @ ''cd'' @ [LF] @ [LF] @ ''e'' @ [LF],
      final = OtherError ''input/output error'', errWithData = False\<rparr>
     (recording (\<lambda>b. b \<noteq> [])) []
   = (None, [''ab'', ''cd'', []])
 \<and> scanLines \<lparr>unread = ''ab'' @ [CR, LF] @ ''cd'' @ [LF],
      final = OtherError ''input/output error'', errWithData = False\<rparr>
     (recording (\<lambda>b. True)) []
   = (Some (OtherError ''input/output error''), [''ab'', ''cd''])
 \<and> scanLines \<lparr>unread = ''ab'' @ [CR, LF] @ ''cd'' @ [LF], final = EOF, errWithData = False\<rparr>
     (recording (\<lambda>b. True)) []
   = (None, [''ab'', ''cd''])"
proof -
  have t1: "''ab'' @ [CR, LF] @ ''cd'' @ [LF] @ [LF] @ ''e'' @ [LF]
      = terminated [''ab'' @ [CR], ''cd'', [], ''e'']"
    and t2: "''ab'' @ [CR, LF] @ ''cd'' @ [LF] = terminated [''ab'' @ [CR], ''cd'']"
    by (simp_all add: terminated_def)
  have n1: "\<forall>l \<in> set [''ab'' @ [CR], ''cd'', [], ''e'']. LF \<notin> set l"
    and n2: "\<forall>l \<in> set [''ab'' @ [CR], ''cd'']. LF \<notin> set l"
    by (simp_all add: LF_def CR_def)
  show ?thesis
    unfolding t1 t2
    using scanLines_complete_lines [OF n1, of "OtherError ''input/output error''" False
        "recording (\<lambda>b. b \<noteq> [])" "[]" "\<lambda>b. b \<noteq> []", THEN conjunct2]
      scanLines_complete_lines [OF n2, of "OtherError ''input/output error''" False
        "recording (\<lambda>b. True)" "[]" "\<lambda>b. True", THEN conjunct2]
      scanLines_complete_lines [OF n2, of EOF False "recording (\<lambda>b. True)" "[]" "\<lambda>b. True", THEN conjunct2]
    by (simp add: chomp_def CR_def)
qed

text \<open>
  C4 as first stated fails: when the stream is a file that is closed after the line \<open>ab\<close>,
  as the pseudo-terminal of a process is by \<^verbatim>\<open>ClosePipe\<close>, the read ends with the error of
  the closed file, and \<open>scanLines\<close> returns that error and not nil.
\<close>
theorem scanLines_complete_lines_counterexample:
  "scanLines \<lparr>unread = ''ab'' @ [LF], final = FileClosed ''read /dev/ptmx: file already closed'',
      errWithData = False\<rparr>
     (recording (\<lambda>b. True)) []
   = (Some (FileClosed ''read /dev/ptmx: file already closed''), [''ab''])"
proof -
  have "\<forall>l \<in> set [''ab'']. LF \<notin> set l" "LF \<notin> set []" "length ([] :: string) < defaultBufSize"
    by (simp_all add: LF_def defaultBufSize_def)
  from scanLines_characterisation [OF this,
      of "FileClosed ''read /dev/ptmx: file already closed''" False "recording (\<lambda>b. True)" "[]"]
  show ?thesis
    by (simp add: terminated_def recording_def finish_def errResult_def chomp_def CR_def)
qed

text \<open>
  C10 (as amended). When the stream ends without a line feed and the bytes after the last
  line feed are fewer than the buffer size, \<open>scanLines\<close> calls the callback on these bytes
  as one more line, after the complete lines, before it returns.
\<close>
theorem scanLines_trailing_data:
  assumes "\<forall>l \<in> set ls. LF \<notin> set l" "t \<noteq> []" "LF \<notin> set t" "length t < defaultBufSize"
  shows "scanLines \<lparr>unread = terminated ls @ t, final = e, errWithData = d\<rparr>
           (recording (\<lambda>b. True)) []
         = (if e \<noteq> EOF \<and> e \<noteq> ErrClosedPipe then Some e else None, map chomp ls @ [t])"
  using scanLines_characterisation [OF assms(1,3,4), of e d "recording (\<lambda>b. True)" "[]"] assms(2)
  by (simp add: feed_recording finish_def errResult_def list_all_iff)

text \<open>One complete line and four trailing bytes.\<close>
theorem scanLines_trailing_data_witness:
  "scanLines \<lparr>unread = ''ab'' @ [LF] @ ''tail'', final = EOF, errWithData = False\<rparr>
     (recording (\<lambda>b. True)) []
   = (None, [''ab'', ''tail''])"
proof -
  have n: "\<forall>l \<in> set [''ab'']. LF \<notin> set l" "''tail'' \<noteq> []" "LF \<notin> set ''tail''"
    "length ''tail'' < defaultBufSize"
    by (simp_all add: LF_def defaultBufSize_def)
  from scanLines_trailing_data [OF n, of EOF False]
  show ?thesis by (simp add: terminated_def chomp_def CR_def)
qed

text \<open>
  C10 as first stated fails: on the stream \<open>abc\<close> followed by the end of the stream, the
  callback is called with \<open>abc\<close>.
\<close>
theorem scanLines_trailing_data_counterexample:
  "snd (scanLines \<lparr>unread = ''abc'', final = EOF, errWithData = False\<rparr>
     (recording (\<lambda>b. True)) []) = [''abc'']"
proof -
  have "\<forall>l \<in> set ([] :: string list). LF \<notin> set l" "LF \<notin> set ''abc''"
    "length ''abc'' < defaultBufSize"
    by (simp_all add: LF_def defaultBufSize_def)
  from scanLines_characterisation [OF this, of EOF False "recording (\<lambda>b. True)" "[]"]
  show ?thesis by (simp add: terminated_def recording_def finish_def)
qed

section \<open>Unresolved scripts, and the output record\<close>

lemma npmLoop_missing_stays:
  "missing \<noteq> [] \<Longrightarrow> npmLoop uni rk tbl i cs result missing = Inr (r, m) \<Longrightarrow> m \<noteq> []"
proof (induction cs arbitrary: i result missing)
  case Nil
  then show ?case by simp
next
  case (Cons c cs)
  from Cons.prems(2) obtain result1 missing1 where
    "npmLoop uni rk tbl (Suc i) cs result1 missing1 = Inr (r, m)"
    and "missing1 = missing \<or> missing1 = missing @ [TrimPrefix c ''npm:'']"
    by (auto simp: Let_def split: option.splits if_splits)
  with Cons.prems(1) Cons.IH [of missing1 "Suc i" result1] show ?case by auto
qed

lemma npmLoop_unresolved:
  "c \<in> set cs \<Longrightarrow> unresolved uni tbl c
   \<Longrightarrow> npmLoop uni rk tbl i cs result missing = Inr (r, m) \<Longrightarrow> m \<noteq> []"
proof (induction cs arbitrary: i result missing)
  case Nil
  then show ?case by simp
next
  case (Cons a cs)
  show ?case
  proof (cases "a = c")
    case True
    let ?sn = "TrimPrefix c ''npm:''"
    from Cons.prems(2) have none: "map_of tbl ?sn = None"
      and wild: "Contains ?sn CHR ''*''
        \<Longrightarrow> filter (\<lambda>(n, pcmd). wildcardMatch uni ?sn n) (rangeScripts (rk i) tbl) = []"
      by (auto simp: unresolved_def Let_def filter_empty_conv)
    show ?thesis
    proof (cases "Contains ?sn CHR ''*''")
      case True
      with \<open>a = c\<close> none wild Cons.prems(3) show ?thesis by (simp add: Let_def)
    next
      case False
      with \<open>a = c\<close> none Cons.prems(3)
      have "npmLoop uni rk tbl (Suc i) cs result (missing @ [?sn]) = Inr (r, m)"
        by (simp add: Let_def)
      then show ?thesis by (rule npmLoop_missing_stays [rotated]) simp
    qed
  next
    case False
    with Cons.prems(1) have "c \<in> set cs" by simp
    from Cons.prems(3) Cons.IH [OF this Cons.prems(2)] show ?thesis
      by (auto simp: Let_def split: option.splits if_splits)
  qed
qed

lemma parseNpmScripts_unresolved:
  assumes "c \<in> set cs" "unresolved uni tbl c"
  shows "\<exists>e. parseNpmScripts uni rk (Inr tbl) cs = Inl e"
proof (cases "npmLoop uni rk tbl 0 cs [] []")
  case (Inl e)
  then show ?thesis by (simp add: parseNpmScripts_def)
next
  case (Inr rm)
  obtain r m where "rm = (r, m)" by (cases rm)
  with Inr npmLoop_unresolved [OF assms, of rk 0 "[]" "[]" r m] show ?thesis
    by (simp add: parseNpmScripts_def)
qed

lemma unresolved_npm_is_error:
  assumes "c \<in> set cmds" "isNpm c"
    and "fs root = Inl err \<or> fs root = Inr (Inl err)
      \<or> (\<exists>tbl. fs root = Inr (Inr tbl) \<and> unresolved uni tbl c)"
  shows "\<exists>e. parseCommands uni rk fs root cmds = Inl e"
proof -
  from assms(1,2) have mem: "c \<in> set (filter isNpm cmds)" by simp
  then have ne: "filter isNpm cmds \<noteq> []" by (auto simp: filter_empty_conv)
  from assms(3) show ?thesis
  proof (elim disjE exE conjE)
    assume "fs root = Inl err"
    with ne show ?thesis by (simp add: parseCommands_eq)
  next
    assume "fs root = Inr (Inl err)"
    with ne show ?thesis by (simp add: parseCommands_eq parseNpmScripts_def)
  next
    fix tbl assume "fs root = Inr (Inr tbl)" "unresolved uni tbl c"
    with ne parseNpmScripts_unresolved [OF mem, of uni tbl rk] show ?thesis
      by (auto simp: parseCommands_eq)
  qed
qed

lemma New_error_of_parseCommands:
  "Abs S (Root cfg) = Inr root
   \<Longrightarrow> parseCommands (EqualFoldUnicode S) (RangeOrder S) (ReadPackageJSON S) root (Cmds cfg) = Inl e
   \<Longrightarrow> New S cfg = Inl e"
  by (simp add: New_def)

text \<open>
  C7, at the input \<open>npm:a/b\<close> with a script table that has no script \<open>a/b\<close>: the derived
  name of the command is \<open>b\<close>, so the command is not set aside as an \<open>npm:\<close> command;
  \<open>parseCommands\<close> returns it as a plain command and \<open>New\<close> constructs a process that runs
  the text \<open>npm:a/b\<close>, where an error was due. Lemma \<open>unresolved_npm_is_error\<close> above shows that
  the error is returned for every command that is set aside as an \<open>npm:\<close> command.
\<close>
theorem npm_slash_not_resolved:
  "parseCommands uni rk (\<lambda>r. Inr (Inr [])) ''/w'' [''npm:a/b'']
     = Inr [\<lparr>name = ''b'', cmd = ''npm:a/b''\<rparr>]
   \<and> map_sum id (\<lambda>pm. map Cmd (pm_procs pm))
       (New \<lparr>Abs = (\<lambda>r. Inr r), Environ = [], Join = (\<lambda>a b. a @ ''/'' @ b),
             StatIsDir = (\<lambda>p. False), ReadPackageJSON = (\<lambda>r. Inr (Inr [])),
             EqualFoldUnicode = uni, RangeOrder = rk\<rparr>
            \<lparr>Cmds = [''npm:a/b''], Root = ''/w'', Timeout = 0, Silent = False\<rparr>)
       = Inr [''npm:a/b'']"
proof -
  have i: "\<not> isNpm ''npm:a/b''" and d: "derivedName ''npm:a/b'' = ''b''"
    by (simp_all add: name_eval)
  have p: "parseCommands uni rk (\<lambda>r. Inr (Inr [])) ''/w'' [''npm:a/b'']
      = Inr [\<lparr>name = ''b'', cmd = ''npm:a/b''\<rparr>]"
    by (simp add: parseCommands_eq i d plainCommand_def numbered_def numberedName_def)
  show ?thesis
    by (simp add: New_def p newProcess_def Let_def)
qed





section \<open>Status lines and signals\<close>


lemma composeLine_cong:
  "printProcName m1 = printProcName m \<Longrightarrow> maxNameLength m1 = maxNameLength m \<Longrightarrow>
   Name p1 = Name p \<Longrightarrow> Color p1 = Color p \<Longrightarrow>
   composeLine nc m1 p1 x = composeLine nc m p x"
  by (simp add: composeLine_def)

lemma openPipe_fields:
  "openPipe ptyres m p = Inr m1 \<Longrightarrow>
     printProcName m1 = printProcName m \<and> maxNameLength m1 = maxNameLength m"
  by (auto simp: openPipe_def split: option.splits sum.splits prod.splits)

lemma afterRun_fields: "Name (afterRun res p) = Name p" "Color (afterRun res p) = Color p"
  by (simp_all add: afterRun_def split: run_result.splits)

text \<open>
  C2. When the pseudo-terminal has been opened, \<open>Run\<close> returns, and what it wrote is: the
  dimmed line \<open>Starting...\<close> unless the process is silent; then, for an exit-status error
  with code 1, the text of the error as a red line; for an exit-status error with any other
  code \<open>N\<close>, the dimmed line \<open>exit status N\<close>; for any other error of the command, its text
  as a red line; and for no error, the dimmed line \<open>Process exited\<close> unless the process is
  silent.
\<close>
theorem Run_status_lines:
  assumes "openPipe ptyres m p = Inr m1"
  shows "\<exists>p1 m2 w2. Run ptyres res m p w = Inr (p1, m2, w2) \<and>
     Stdout w2 =
       Stdout w
       @ (if silent p then []
          else composeLine (NoColor w) m p (Dim (NoColor w) ''Starting...''))
       @ (case res of
            ExitError pid code text \<Rightarrow>
              if code = 1 then composeLine (NoColor w) m p (Red (NoColor w) text)
              else composeLine (NoColor w) m p (Dim (NoColor w) (''exit status '' @ itoa code))
          | RunError pido text \<Rightarrow> composeLine (NoColor w) m p (Red (NoColor w) text)
          | RunOK pid \<Rightarrow>
              if silent p then []
              else composeLine (NoColor w) m p (Dim (NoColor w) ''Process exited''))"
proof -
  note f = openPipe_fields [OF assms]
  have c1: "composeLine nc m1 p x = composeLine nc m p x" for nc x
    using f by (intro composeLine_cong) simp_all
  have c2: "composeLine nc m1 (afterRun r p) x = composeLine nc m p x" for nc x r
    using f by (intro composeLine_cong) (simp_all add: afterRun_fields)
  show ?thesis
    by (cases res)
      (simp_all add: Run_def assms Let_def writeDebug_def WriteErr_def WriteLine_def c1 c2)
qed

text \<open>Exit code 2 without colours, and exit code 1 with colours.\<close>
theorem Run_status_lines_witness:
  "(\<exists>p1 m2 w2.
      Run (Inr (\<lparr>fd = 3, closed = False\<rparr>, \<lparr>fd = 4, closed = False\<rparr>))
          (ExitError 7 2 ''exit status 2'')
          \<lparr>maxNameLength = 2, pipes = [0 \<mapsto> \<lparr>pty = None, tty = None\<rparr>], printProcName = True\<rparr>
          \<lparr>addr = 0, Name = ''sh'', Color = 2, Cmd = ''exit 2'', Dir = ''/'', Env = [],
           silent = True, Process = None, ProcessState = None\<rparr>
          \<lparr>NoColor = True, Stdout = [], Kills = []\<rparr> = Inr (p1, m2, w2)
      \<and> Stdout w2 = ''sh  exit status 2'' @ [LF])
 \<and> (\<exists>p1 m2 w2.
      Run (Inr (\<lparr>fd = 3, closed = False\<rparr>, \<lparr>fd = 4, closed = False\<rparr>))
          (ExitError 7 1 ''exit status 1'')
          \<lparr>maxNameLength = 2, pipes = [0 \<mapsto> \<lparr>pty = None, tty = None\<rparr>], printProcName = True\<rparr>
          \<lparr>addr = 0, Name = ''sh'', Color = 2, Cmd = ''exit 1'', Dir = ''/'', Env = [],
           silent = True, Process = None, ProcessState = None\<rparr>
          \<lparr>NoColor = False, Stdout = [], Kills = []\<rparr> = Inr (p1, m2, w2)
      \<and> Stdout w2 = ESC # ''[0;38;5;2msh '' @ ESC # ''[0m '' @ ESC # ''[0;31mexit status 1''
            @ ESC # ''[0m'' @ [LF])"
proof -
  let ?pty = "Inr (\<lparr>fd = 3, closed = False\<rparr>, \<lparr>fd = 4, closed = False\<rparr>)
      :: string + osFile \<times> osFile"
  let ?m = "\<lparr>maxNameLength = 2, pipes = [0 \<mapsto> \<lparr>pty = None, tty = None\<rparr>],
      printProcName = True\<rparr>"
  let ?p = "\<lambda>c. \<lparr>addr = 0, Name = ''sh'', Color = 2, Cmd = c, Dir = ''/'', Env = [],
           silent = True, Process = None, ProcessState = None\<rparr>"
  have o: "\<exists>m1. openPipe ?pty ?m (?p c) = Inr m1" for c
    by (simp add: openPipe_def)
  from o [of "''exit 2''"] obtain m1 where m1: "openPipe ?pty ?m (?p ''exit 2'') = Inr m1" ..
  from o [of "''exit 1''"] obtain m1' where m1': "openPipe ?pty ?m (?p ''exit 1'') = Inr m1'" ..
  show ?thesis
    using Run_status_lines [OF m1, of "ExitError 7 2 ''exit status 2''"
        "\<lparr>NoColor = True, Stdout = [], Kills = []\<rparr>"]
      Run_status_lines [OF m1', of "ExitError 7 1 ''exit status 1''"
        "\<lparr>NoColor = False, Stdout = [], Kills = []\<rparr>"]
    by (simp add: composeLine_def padLoop.simps Dim_def Red_def ColorStart_def ColorEnd_def
        TrimPrefix_def HasPrefix_def itoa_def digits.simps)
qed

lemma signal_running:
  assumes "Process p = Some pid"
  shows "signal K m p sig w =
     (case FindProcess K (- pid) of
        Some err \<Rightarrow> Inr (WriteErr m p err w)
      | None \<Rightarrow>
          Inr (case Signal K (- pid) sig of
                 Some err \<Rightarrow> WriteErr m p err (w\<lparr>Kills := Kills w @ [(- pid, sig)]\<rparr>)
               | None \<Rightarrow> w\<lparr>Kills := Kills w @ [(- pid, sig)]\<rparr>))"
  by (simp add: signal_def assms Let_def split: option.splits)

text \<open>
  C3. \<open>Running\<close> holds exactly when the process handle is set and no exit state is
  recorded. For a process that is not running, \<open>Interrupt\<close> and \<open>Kill\<close> leave everything as
  it is: no signal, no line. For a running process that is not silent (the lookup of its
  group succeeding, as it always does on Unix), \<open>Interrupt\<close> writes the dimmed line
  \<open>Interrupting...\<close> and sends \<open>SIGINT\<close> to the process group, and \<open>Kill\<close> writes the dimmed
  line \<open>Killing...\<close> and sends \<open>SIGKILL\<close> to the process group; a failed delivery adds the
  error as a red line.
\<close>
theorem Interrupt_Kill_when_running:
  "Running p = (Process p \<noteq> None \<and> ProcessState p = None)
   \<and> (\<not> Running p \<longrightarrow> Interrupt K m p w = Inr w \<and> Kill K m p w = Inr w)
   \<and> (Process p = Some pid \<and> ProcessState p = None \<and> \<not> silent p \<and> FindProcess K (- pid) = None
        \<longrightarrow>
        (\<exists>w1. Interrupt K m p w = Inr w1
           \<and> Kills w1 = Kills w @ [(- pid, SIGINT)]
           \<and> Stdout w1 = Stdout w
                @ composeLine (NoColor w) m p (Dim (NoColor w) ''Interrupting...'')
                @ (case Signal K (- pid) SIGINT of
                     None \<Rightarrow> []
                   | Some err \<Rightarrow> composeLine (NoColor w) m p (Red (NoColor w) err)))
      \<and> (\<exists>w1. Kill K m p w = Inr w1
           \<and> Kills w1 = Kills w @ [(- pid, SIGKILL)]
           \<and> Stdout w1 = Stdout w
                @ composeLine (NoColor w) m p (Dim (NoColor w) ''Killing...'')
                @ (case Signal K (- pid) SIGKILL of
                     None \<Rightarrow> []
                   | Some err \<Rightarrow> composeLine (NoColor w) m p (Red (NoColor w) err))))"
  by (auto simp: Running_def Interrupt_def Kill_def signal_running writeDebug_def WriteErr_def
      WriteLine_def split: option.splits)

text \<open>A process that has exited, and a process that is running.\<close>
theorem Interrupt_Kill_when_running_witness:
  "Interrupt \<lparr>FindProcess = (\<lambda>t. None), Signal = (\<lambda>t s. None)\<rparr>
      \<lparr>maxNameLength = 2, pipes = Map.empty, printProcName = True\<rparr>
      \<lparr>addr = 0, Name = ''sh'', Color = 2, Cmd = ''sleep 9'', Dir = ''/'', Env = [],
       silent = False, Process = Some 41, ProcessState = Some 0\<rparr>
      \<lparr>NoColor = True, Stdout = [], Kills = []\<rparr>
     = Inr \<lparr>NoColor = True, Stdout = [], Kills = []\<rparr>
 \<and> (\<exists>w1. Kill \<lparr>FindProcess = (\<lambda>t. None), Signal = (\<lambda>t s. None)\<rparr>
      \<lparr>maxNameLength = 2, pipes = Map.empty, printProcName = True\<rparr>
      \<lparr>addr = 0, Name = ''sh'', Color = 2, Cmd = ''sleep 9'', Dir = ''/'', Env = [],
       silent = False, Process = Some 41, ProcessState = None\<rparr>
      \<lparr>NoColor = True, Stdout = [], Kills = []\<rparr> = Inr w1
     \<and> Kills w1 = [(- 41, SIGKILL)] \<and> Stdout w1 = ''sh  Killing...'' @ [LF])"
proof -
  let ?K = "\<lparr>FindProcess = (\<lambda>t. None), Signal = (\<lambda>t s. None)\<rparr>"
  let ?m = "\<lparr>maxNameLength = 2, pipes = Map.empty, printProcName = True\<rparr>"
  let ?p = "\<lambda>st. \<lparr>addr = 0, Name = ''sh'', Color = 2, Cmd = ''sleep 9'', Dir = ''/'', Env = [],
       silent = False, Process = Some 41, ProcessState = st\<rparr>"
  let ?w = "\<lparr>NoColor = True, Stdout = [], Kills = []\<rparr>"
  show ?thesis
    using Interrupt_Kill_when_running [of "?p (Some 0)" ?K ?m ?w 41]
      Interrupt_Kill_when_running [of "?p None" ?K ?m ?w 41]
    by (simp add: composeLine_def padLoop.simps Dim_def ColorStart_def ColorEnd_def
        TrimPrefix_def HasPrefix_def)
qed

section \<open>The shutdown sequence\<close>












lemma timing_coord_update [simp]: "timing pm (s\<lparr>coord := c\<rparr>) = timing pm s"
  by (simp add: timing_def)












end
